theory Spec2Isabelle
  imports Complex_Main
begin

section \<open>Strings, numbers and values of the host language\<close>

text \<open>
  A string is a list of code units; the characters of \<^typ>\<open>char\<close> stand for the code
  units below 256.  The line separator of \<^verbatim>\<open>split("\n")\<close> and
  \<^verbatim>\<open>join("\n")\<close> is the line feed.
\<close>

definition nl :: char where
  "nl = CHR 0x0A"

text \<open>\<^verbatim>\<open>content.split("\n")\<close>: never empty, the empty string gives one empty line.\<close>

fun split_nl :: "string \<Rightarrow> string list" where
  "split_nl [] = [[]]"
| "split_nl (c # cs) =
     (if c = nl then [] # split_nl cs
      else (case split_nl cs of [] \<Rightarrow> [[c]] | l # ls \<Rightarrow> (c # l) # ls))"

text \<open>\<^verbatim>\<open>lines.join("\n")\<close>.\<close>

fun join_nl :: "string list \<Rightarrow> string" where
  "join_nl [] = []"
| "join_nl [l] = l"
| "join_nl (l # ls) = l @ nl # join_nl ls"

text \<open>
  \<^verbatim>\<open>array.slice(start, end)\<close> with the relative indices of the language: a negative
  index counts from the end, and both are clamped to the array.
\<close>

definition slice :: "'a list \<Rightarrow> int \<Rightarrow> int \<Rightarrow> 'a list" where
  "slice xs s e =
     (let len = int (length xs);
          k = (if s < 0 then max (len + s) 0 else min s len);
          fin = (if e < 0 then max (len + e) 0 else min e len)
      in take (nat (fin - k)) (drop (nat k) xs))"

text \<open>\<^verbatim>\<open>lines[i] ?? ""\<close>: an index outside the array reads \<^verbatim>\<open>undefined\<close>.\<close>

definition line_at :: "string list \<Rightarrow> int \<Rightarrow> string" where
  "line_at ls i = (if 0 \<le> i \<and> i < int (length ls) then ls ! nat i else [])"

text \<open>
  \<^verbatim>\<open>text.indexOf(pattern)\<close>: the leftmost position where the pattern occurs,
  \<open>None\<close> for \<^verbatim>\<open>-1\<close>.
\<close>

fun is_prefix :: "string \<Rightarrow> string \<Rightarrow> bool" where
  "is_prefix [] t = True"
| "is_prefix (p # ps) [] = False"
| "is_prefix (p # ps) (c # cs) = (p = c \<and> is_prefix ps cs)"

fun indexOf :: "string \<Rightarrow> string \<Rightarrow> nat option" where
  "indexOf [] pat = (if pat = [] then Some 0 else None)"
| "indexOf (c # cs) pat =
     (if is_prefix pat (c # cs) then Some 0 else map_option Suc (indexOf cs pat))"

text \<open>
  \<^verbatim>\<open>s.trim()\<close> removes white space and line terminators at both ends; below 256
  these are the code units 9 to 13, 32 and 160.
\<close>

definition is_ws :: "char \<Rightarrow> bool" where
  "is_ws c = (of_char c \<in> {9, 10, 11, 12, 13, 32, 160 :: nat})"

definition trim :: "string \<Rightarrow> string" where
  "trim s = rev (dropWhile is_ws (rev (dropWhile is_ws s)))"

text \<open>The decimal rendering of a non-negative integer in a template literal.\<close>

definition digit :: "nat \<Rightarrow> char" where
  "digit d = char_of (48 + d)"

fun show_nat :: "nat \<Rightarrow> string" where
  "show_nat n = (if n < 10 then [digit n] else show_nat (n div 10) @ [digit (n mod 10)])"

declare show_nat.simps [simp del]

text \<open>
  Numbers are doubles: a finite double is a rational, and the other three values are
  kept apart, since \<^verbatim>\<open>Number.isFinite\<close> tells them from the finite ones.
\<close>

datatype jsnum = Finite rat | NaN | PosInf | NegInf

text \<open>
  \<^verbatim>\<open>n + 1\<close> on a number that is a non-negative integer, as the round counter is.
  The sum is exact below \<open>2^53\<close>.  From there on it is rounded to the nearest double,
  ties to the even mantissa: up to \<open>2^54\<close> the doubles are the even integers, so the
  sum is \<open>n\<close> or \<open>n + 2\<close>; beyond, they lie further apart and the sum is \<open>n\<close>.
\<close>

definition js_add1 :: "nat \<Rightarrow> nat" where
  "js_add1 n =
     (if int n < 2 ^ 53 then n + 1
      else if int n < 2 ^ 54 \<and> odd (n div 2) then n + 2
      else n)"


text \<open>
  A value as the draft arrives from the request body: the sanitizer tests the run-time
  type of each field it reads.
\<close>

datatype jsval = Undefined | Null | Bool bool | Num jsnum | Str string | Object

section \<open>Data model\<close>

definition categories :: "string list" where
  "categories = [''bug'', ''style'', ''perf'', ''question'']"

definition severities :: "string list" where
  "severities = [''high'', ''medium'', ''low'']"

definition sides :: "string list" where
  "sides = [''additions'', ''deletions'']"

record anchor =
  a_before :: string
  a_selected :: string
  a_after :: string

datatype status = Open | Closed_auto | Resolved

datatype close_reason = File_removed | Anchor_missing

record finding =
  f_id :: string
  f_round :: nat
  f_file :: string
  f_side :: string
  f_start_line :: int
  f_end_line :: int
  f_category :: string
  f_severity :: string
  f_comment :: string
  f_status :: status
  f_anchor :: anchor
  f_created_at :: nat
  f_updated_at :: nat
  f_closed_at :: "nat option"
  f_close_reason :: "close_reason option"

record draft_finding =
  d_id :: jsval
  d_file :: jsval
  d_side :: jsval
  d_start_line :: jsval
  d_end_line :: jsval
  d_category :: jsval
  d_severity :: jsval
  d_comment :: jsval

text \<open>
  An element of the submitted array: reading a property of \<^verbatim>\<open>null\<close> raises, any
  other element is read field by field (a missing field reads \<open>Undefined\<close>).
\<close>

datatype raw_item = NullItem | Item draft_finding

record draft =
  d_notes :: string
  d_new_findings :: "raw_item list"

record state =
  s_session_id :: string
  s_round :: nat
  s_findings :: "finding list"
  s_draft :: "draft option"
  s_updated_at :: nat

datatype file_status = Added | Deleted | Modified

record review_file =
  path :: string
  rf_status :: file_status
  additions :: nat
  deletions :: nat
  before :: string
  after :: string

section \<open>Anchor codec\<close>

definition normalize :: "int \<Rightarrow> int \<Rightarrow> int \<times> int" where
  "normalize start end = (if start \<le> end then (start, end) else (end, start))"

definition anchor :: "string \<Rightarrow> int \<Rightarrow> int \<Rightarrow> anchor" where
  "anchor content start end =
     (let (rstart, rend) = normalize start end;
          lines = split_nl content;
          len = int (length lines);
          begin = max 1 (min rstart (if len = 0 then 1 else len));
          finish = max begin (min rend (if len = 0 then begin else len))
      in \<lparr> a_before = line_at lines (begin - 2),
           a_selected = join_nl (slice lines (begin - 1) finish),
           a_after = line_at lines finish \<rparr>)"

definition side_text :: "string \<Rightarrow> review_file \<Rightarrow> string" where
  "side_text sd file = (if sd = ''deletions'' then before file else after file)"

definition remap :: "finding \<Rightarrow> review_file \<Rightarrow> (int \<times> int) option" where
  "remap item file =
     (let text = side_text (f_side item) file in
      if a_selected (f_anchor item) = [] then None
      else (case indexOf text (a_selected (f_anchor item)) of
              None \<Rightarrow> None
            | Some index \<Rightarrow>
                (let prefix = take index text;
                     start = int (length (split_nl prefix));
                     size = max 1 (int (length (split_nl (a_selected (f_anchor item)))))
                 in Some (start, start + size - 1))))"

section \<open>Reconciler\<close>

text \<open>
  \<^verbatim>\<open>new Map(files.map((file) => [file.path, file]))\<close>: entries are set in order, a
  later file with the same path replaces the earlier one.
\<close>

definition file_map :: "review_file list \<Rightarrow> (string \<rightharpoonup> review_file)" where
  "file_map files = foldl (\<lambda>m file. m(path file \<mapsto> file)) Map.empty files"

definition reconcile_item :: "(string \<rightharpoonup> review_file) \<Rightarrow> nat \<Rightarrow> finding \<Rightarrow> finding" where
  "reconcile_item m now item =
     (if f_status item \<noteq> Open then item
      else (case m (f_file item) of
              None \<Rightarrow> item\<lparr> f_status := Closed_auto, f_close_reason := Some File_removed,
                            f_closed_at := Some now, f_updated_at := now \<rparr>
            | Some file \<Rightarrow>
                (case remap item file of
                   None \<Rightarrow> item\<lparr> f_status := Closed_auto, f_close_reason := Some Anchor_missing,
                                 f_closed_at := Some now, f_updated_at := now \<rparr>
                 | Some (start_line, end_line) \<Rightarrow>
                     item\<lparr> f_start_line := start_line, f_end_line := end_line,
                           f_updated_at := now \<rparr>)))"

definition reconcile :: "review_file list \<Rightarrow> nat \<Rightarrow> finding list \<Rightarrow> finding list" where
  "reconcile files now findings = map (reconcile_item (file_map files) now) findings"

section \<open>Draft sanitizer\<close>

datatype error = TypeError

text \<open>\<^verbatim>\<open>list.includes(input)\<close> on a list of strings: only an equal string is included.\<close>

definition js_includes :: "string list \<Rightarrow> jsval \<Rightarrow> bool" where
  "js_includes xs v = (case v of Str s \<Rightarrow> s \<in> set xs | _ \<Rightarrow> False)"

definition isCategory :: "jsval \<Rightarrow> bool" where
  "isCategory input = js_includes categories input"

definition isSeverity :: "jsval \<Rightarrow> bool" where
  "isSeverity input = js_includes severities input"

definition isSide :: "jsval \<Rightarrow> bool" where
  "isSide input = js_includes sides input"

definition isString :: "jsval \<Rightarrow> bool" where
  "isString v = (case v of Str s \<Rightarrow> True | _ \<Rightarrow> False)"

definition isFinite :: "jsval \<Rightarrow> bool" where
  "isFinite v = (case v of Num (Finite q) \<Rightarrow> True | _ \<Rightarrow> False)"

text \<open>The string and the number behind a value, read only after the type tests passed.\<close>

definition str_of :: "jsval \<Rightarrow> string" where
  "str_of v = (case v of Str s \<Rightarrow> s | _ \<Rightarrow> [])"

definition num_of :: "jsval \<Rightarrow> rat" where
  "num_of v = (case v of Num (Finite q) \<Rightarrow> q | _ \<Rightarrow> 0)"

text \<open>
  \<^verbatim>\<open>`finding_${round}_${index + 1}_${crypto.randomUUID().slice(0, 6)}`\<close>, the random
  identifier being a parameter.
\<close>

definition synth_id :: "nat \<Rightarrow> nat \<Rightarrow> string \<Rightarrow> string" where
  "synth_id round' index uuid =
     ''finding_'' @ show_nat round' @ ''_'' @ show_nat (index + 1) @ ''_'' @ take 6 uuid"

text \<open>
  \<^verbatim>\<open>item.id?.trim() || fallback\<close>: a missing or null id and a blank one take the
  fallback; a string is trimmed; any other value has no \<^verbatim>\<open>trim\<close> method, and the
  call raises.
\<close>

definition item_id :: "jsval \<Rightarrow> string \<Rightarrow> error + string" where
  "item_id v fallback =
     (case v of
        Undefined \<Rightarrow> Inr fallback
      | Null \<Rightarrow> Inr fallback
      | Str s \<Rightarrow> Inr (if trim s = [] then fallback else trim s)
      | _ \<Rightarrow> Inl TypeError)"

text \<open>
  The callback of \<^verbatim>\<open>items.flatMap\<close>: \<open>Inr []\<close> skips the item, \<open>Inr [f]\<close> emits
  a finding.  \<open>now\<close> is the clock read at the start of \<^verbatim>\<open>sanitize\<close>, and \<open>uuid index\<close>
  the random identifier drawn for the item at \<open>index\<close>.
\<close>

definition sanitize_item ::
  "nat \<Rightarrow> (string \<rightharpoonup> review_file) \<Rightarrow> nat \<Rightarrow> (nat \<Rightarrow> string) \<Rightarrow> raw_item \<Rightarrow> nat
     \<Rightarrow> error + finding list" where
  "sanitize_item round' files now uuid raw index =
     (case raw of
        NullItem \<Rightarrow> Inl TypeError
      | Item item \<Rightarrow>
          if \<not> isString (d_file item) \<or> str_of (d_file item) = [] then Inr []
          else if \<not> isString (d_comment item) \<or> trim (str_of (d_comment item)) = [] then Inr []
          else if \<not> isSide (d_side item) then Inr []
          else if \<not> isCategory (d_category item) then Inr []
          else if \<not> isSeverity (d_severity item) then Inr []
          else if \<not> isFinite (d_start_line item) \<or> \<not> isFinite (d_end_line item) then Inr []
          else (case files (str_of (d_file item)) of
                  None \<Rightarrow> Inr []
                | Some file \<Rightarrow>
                    (let start_line =
                           max 1 \<lfloor>min (num_of (d_start_line item)) (num_of (d_end_line item))\<rfloor>;
                         end_line =
                           max start_line
                             \<lfloor>max (num_of (d_start_line item)) (num_of (d_end_line item))\<rfloor>;
                         source = side_text (str_of (d_side item)) file;
                         next = anchor source start_line end_line
                     in if trim (a_selected next) = [] then Inr []
                        else (case item_id (d_id item) (synth_id round' index (uuid index)) of
                                Inl e \<Rightarrow> Inl e
                              | Inr id' \<Rightarrow>
                                  Inr [\<lparr> f_id = id',
                                         f_round = round',
                                         f_file = str_of (d_file item),
                                         f_side = str_of (d_side item),
                                         f_start_line = start_line,
                                         f_end_line = end_line,
                                         f_category = str_of (d_category item),
                                         f_severity = str_of (d_severity item),
                                         f_comment = trim (str_of (d_comment item)),
                                         f_status = Open,
                                         f_anchor = next,
                                         f_created_at = now,
                                         f_updated_at = now,
                                         f_closed_at = None,
                                         f_close_reason = None \<rparr>]))))"

text \<open>\<^verbatim>\<open>flatMap\<close> runs the callback in order and stops at the first one that raises.\<close>

fun sanitize_from ::
  "nat \<Rightarrow> (string \<rightharpoonup> review_file) \<Rightarrow> nat \<Rightarrow> (nat \<Rightarrow> string) \<Rightarrow> nat \<Rightarrow> raw_item list
     \<Rightarrow> error + finding list" where
  "sanitize_from round' files now uuid index [] = Inr []"
| "sanitize_from round' files now uuid index (item # items) =
     (case sanitize_item round' files now uuid item index of
        Inl e \<Rightarrow> Inl e
      | Inr out \<Rightarrow>
          (case sanitize_from round' files now uuid (Suc index) items of
             Inl e \<Rightarrow> Inl e
           | Inr rest \<Rightarrow> Inr (out @ rest)))"

definition sanitize ::
  "raw_item list \<Rightarrow> nat \<Rightarrow> (string \<rightharpoonup> review_file) \<Rightarrow> nat \<Rightarrow> (nat \<Rightarrow> string)
     \<Rightarrow> error + finding list" where
  "sanitize items round' files now uuid = sanitize_from round' files now uuid 0 items"

section \<open>Round controller\<close>

text \<open>
  One review round.  \<open>stored\<close> is the content of the state file (what
  \<^verbatim>\<open>saveState\<close> wrote last), \<open>base\<close> the state object the handlers close over,
  \<open>existing_findings\<close> the list served to the reviewer, \<open>files_map\<close> the map of the
  round's files and \<open>result\<close> the value the round settles with, once it has.
\<close>

record done_result =
  cancelled :: bool
  dn_round :: nat
  dn_notes :: string
  dn_findings :: "finding list"

record session =
  stored :: state
  base :: state
  l_round :: nat
  existing_findings :: "finding list"
  l_draft :: draft
  files_map :: "string \<rightharpoonup> review_file"
  result :: "done_result option"

definition is_open :: "finding \<Rightarrow> bool" where
  "is_open item = (f_status item = Open)"

text \<open>
  The start of a round: the stored findings are reconciled with the files and saved,
  before anything is served.  \<open>t0\<close> and \<open>t1\<close> are the two clock reads.
\<close>

definition launch :: "review_file list \<Rightarrow> state \<Rightarrow> nat \<Rightarrow> nat \<Rightarrow> session" where
  "launch files st t0 t1 =
     (let merged = reconcile files t0 (s_findings st);
          existing = filter is_open merged;
          b = st\<lparr> s_findings := merged, s_updated_at := t1 \<rparr>
      in \<lparr> stored = b,
           base = b,
           l_round = js_add1 (s_round b),
           existing_findings = existing,
           l_draft = (case s_draft b of
                        None \<Rightarrow> \<lparr> d_notes = [], d_new_findings = [] \<rparr>
                      | Some d \<Rightarrow> d),
           files_map = file_map files,
           result = None \<rparr>)"

text \<open>The body of a draft or submit request; both fields may be missing or ill-typed.\<close>

record submit =
  sb_notes :: "string option"
  sb_new_findings :: "raw_item list option"

datatype response = Ok_response | Submitted nat | Bad_request | Not_found

definition put_draft :: "submit \<Rightarrow> nat \<Rightarrow> session \<Rightarrow> response \<times> session" where
  "put_draft input now s =
     (let notes' = (case sb_notes input of Some n \<Rightarrow> n | None \<Rightarrow> []);
          new_findings = (case sb_new_findings input of Some xs \<Rightarrow> xs | None \<Rightarrow> []);
          next = (base s)\<lparr> s_draft := Some \<lparr> d_notes = notes', d_new_findings = new_findings \<rparr>,
                           s_updated_at := now \<rparr>
      in (Ok_response, s\<lparr> stored := next \<rparr>))"

text \<open>\<^verbatim>\<open>array.find(p)\<close> as the position of the first element that satisfies \<open>p\<close>.\<close>

fun find_index :: "('a \<Rightarrow> bool) \<Rightarrow> 'a list \<Rightarrow> nat option" where
  "find_index p [] = None"
| "find_index p (x # xs) = (if p x then Some 0 else map_option Suc (find_index p xs))"

text \<open>\<^verbatim>\<open>array.splice(idx, 1)\<close>.\<close>

definition splice1 :: "nat \<Rightarrow> 'a list \<Rightarrow> 'a list" where
  "splice1 idx xs = take idx xs @ drop (Suc idx) xs"

text \<open>
  The resolve request.  The target is an object of \<open>base\<close>, changed in place; \<open>t0\<close>,
  \<open>t1\<close> and \<open>t2\<close> are the clock reads for \<open>updated_at\<close>, \<open>closed_at\<close> and the state.
\<close>

definition post_resolve ::
  "string option \<Rightarrow> nat \<Rightarrow> nat \<Rightarrow> nat \<Rightarrow> session \<Rightarrow> response \<times> session" where
  "post_resolve finding_id t0 t1 t2 s =
     (case finding_id of
        None \<Rightarrow> (Bad_request, s)
      | Some fid \<Rightarrow>
          if fid = [] then (Bad_request, s)
          else (case find_index (\<lambda>item. f_id item = fid \<and> f_status item = Open)
                       (s_findings (base s)) of
                  None \<Rightarrow> (Not_found, s)
                | Some i \<Rightarrow>
                    (let target = (s_findings (base s) ! i)
                           \<lparr> f_status := Resolved, f_updated_at := t0, f_closed_at := Some t1 \<rparr>;
                         b = (base s)\<lparr> s_findings := (s_findings (base s))[i := target],
                                        s_updated_at := t2 \<rparr>
                     in (Ok_response,
                         s\<lparr> base := b,
                            stored := b,
                            existing_findings :=
                              (case find_index (\<lambda>item. f_id item = fid) (existing_findings s) of
                                 None \<Rightarrow> existing_findings s
                               | Some idx \<Rightarrow> splice1 idx (existing_findings s)) \<rparr>))))"

text \<open>The round settles once: a later result is dropped.\<close>

definition resolve :: "done_result \<Rightarrow> session \<Rightarrow> session" where
  "resolve r s = (case result s of None \<Rightarrow> s\<lparr> result := Some r \<rparr> | Some r' \<Rightarrow> s)"

text \<open>
  The submit request.  When the sanitizer raises, the handler raises before anything is
  saved.  \<open>t0\<close> is the clock read of the sanitizer, \<open>t1\<close> the one of the new state.
\<close>

definition post_submit ::
  "submit \<Rightarrow> nat \<Rightarrow> nat \<Rightarrow> (nat \<Rightarrow> string) \<Rightarrow> session \<Rightarrow> (error + response) \<times> session" where
  "post_submit input t0 t1 uuid s =
     (let notes' = (case sb_notes input of Some n \<Rightarrow> trim n | None \<Rightarrow> []);
          fresh = (case sb_new_findings input of Some xs \<Rightarrow> xs | None \<Rightarrow> []);
          round' = js_add1 (s_round (base s))
      in case sanitize fresh round' (files_map s) t0 uuid of
           Inl e \<Rightarrow> (Inl e, s)
         | Inr created \<Rightarrow>
             (let carry = filter (\<lambda>item. f_status item = Open) (s_findings (base s));
                  closed = filter (\<lambda>item. f_status item \<noteq> Open) (s_findings (base s));
                  findings = closed @ carry @ created;
                  next = (base s)\<lparr> s_round := round', s_findings := findings,
                                   s_draft := None, s_updated_at := t1 \<rparr>;
                  completed = \<lparr> cancelled = False, dn_round = round', dn_notes = notes',
                                dn_findings = findings \<rparr>
              in (Inr (Submitted round'), resolve completed (s\<lparr> stored := next \<rparr>))))"

text \<open>The abort listener: the round settles as cancelled, and nothing is saved.\<close>

definition abort :: "session \<Rightarrow> session" where
  "abort s =
     resolve \<lparr> cancelled = True, dn_round = js_add1 (s_round (base s)), dn_notes = [],
               dn_findings = s_findings (base s) \<rparr> s"

text \<open>The requests a reviewer may send while the round awaits review, before submitting.\<close>

datatype request = Put_draft submit nat | Post_resolve "string option" nat nat nat

fun handle :: "session \<Rightarrow> request \<Rightarrow> session" where
  "handle s (Put_draft input now) = snd (put_draft input now s)"
| "handle s (Post_resolve finding_id t0 t1 t2) = snd (post_resolve finding_id t0 t1 t2 s)"

definition awaiting :: "session \<Rightarrow> request list \<Rightarrow> session" where
  "awaiting s requests = foldl handle s requests"

section \<open>The sanitizer's checks, as the specification lists them\<close>

text \<open>
  The specification's description of the sanitizer, for comparison with \<open>sanitize_item\<close>:
  the line pair is ordered and clamped (\<open>start_line\<close> is the floor of the minimum, at
  least 1; \<open>end_line\<close> the floor of the maximum, at least \<open>start_line\<close>), and an item
  is valid when its file is a non-empty string present in the file index, its comment
  is a string that is not blank, its side, category and severity belong to the
  enumerations, both line numbers are finite numbers, and the text captured for the
  range does not trim to the empty string.
\<close>

definition spec_start_line :: "rat \<Rightarrow> rat \<Rightarrow> int" where
  "spec_start_line s e = max 1 \<lfloor>min s e\<rfloor>"

definition spec_end_line :: "rat \<Rightarrow> rat \<Rightarrow> int" where
  "spec_end_line s e = max (spec_start_line s e) \<lfloor>max s e\<rfloor>"

definition spec_valid :: "(string \<rightharpoonup> review_file) \<Rightarrow> draft_finding \<Rightarrow> bool" where
  "spec_valid files item =
     (case d_file item of
        Str p \<Rightarrow>
          p \<noteq> [] \<and>
          (case files p of
             None \<Rightarrow> False
           | Some file \<Rightarrow>
               (case d_comment item of Str c \<Rightarrow> trim c \<noteq> [] | _ \<Rightarrow> False) \<and>
               (case d_category item of Str c \<Rightarrow> c \<in> set categories | _ \<Rightarrow> False) \<and>
               (case d_severity item of Str c \<Rightarrow> c \<in> set severities | _ \<Rightarrow> False) \<and>
               (case d_side item of
                  Str sd \<Rightarrow>
                    sd \<in> set sides \<and>
                    (case d_start_line item of
                       Num (Finite s) \<Rightarrow>
                         (case d_end_line item of
                            Num (Finite e) \<Rightarrow>
                              trim (a_selected (anchor (side_text sd file)
                                      (spec_start_line s e) (spec_end_line s e))) \<noteq> []
                          | _ \<Rightarrow> False)
                     | _ \<Rightarrow> False)
                | _ \<Rightarrow> False))
      | _ \<Rightarrow> False)"

text \<open>The declared type of a draft's id: absent, or a string (null counts as absent).\<close>

definition id_declared :: "jsval \<Rightarrow> bool" where
  "id_declared v = (case v of Undefined \<Rightarrow> True | Null \<Rightarrow> True | Str s \<Rightarrow> True | _ \<Rightarrow> False)"

section \<open>Lines, joins and the leftmost occurrence\<close>

lemma split_nl_not_Nil: "split_nl s \<noteq> []"
  by (induction s) (auto split: list.splits)

lemma length_split_nl: "length (split_nl s) = Suc (count_list s nl)"
proof (induction s)
  case Nil
  show ?case by simp
next
  case (Cons c cs)
  then show ?case
    using split_nl_not_Nil [of cs] by (cases "split_nl cs") auto
qed

lemma split_nl_no_nl: "l \<in> set (split_nl s) \<Longrightarrow> nl \<notin> set l"
proof (induction s arbitrary: l)
  case Nil
  then show ?case by simp
next
  case (Cons c cs)
  then show ?case
    by (cases "split_nl cs") (auto split: if_splits)
qed

lemma join_split_nl: "join_nl (split_nl s) = s"
proof (induction s)
  case Nil
  show ?case by simp
next
  case (Cons c cs)
  show ?case
  proof (cases "split_nl cs")
    case Nil
    then show ?thesis using split_nl_not_Nil [of cs] by simp
  next
    case (Cons l ls)
    then show ?thesis using Cons.IH
      by (cases ls) auto
  qed
qed

lemma join_nl_Cons: "ls \<noteq> [] \<Longrightarrow> join_nl (l # ls) = l @ nl # join_nl ls"
  by (cases ls) auto

lemma join_nl_append:
  "xs \<noteq> [] \<Longrightarrow> ys \<noteq> [] \<Longrightarrow> join_nl (xs @ ys) = join_nl xs @ nl # join_nl ys"
proof (induction xs)
  case Nil
  then show ?case by simp
next
  case (Cons x xs)
  then show ?case
    by (cases "xs = []") (simp_all add: join_nl_Cons)
qed

lemma count_join_nl:
  "ls \<noteq> [] \<Longrightarrow> \<forall>l \<in> set ls. nl \<notin> set l \<Longrightarrow> count_list (join_nl ls) nl = length ls - 1"
proof (induction ls)
  case Nil
  then show ?case by simp
next
  case (Cons l ls)
  then show ?case
    by (cases "ls = []") (simp_all add: join_nl_Cons count_list_0_iff)
qed

lemma is_prefix_iff: "is_prefix p t \<longleftrightarrow> (\<exists>s. t = p @ s)"
  by (induction p t rule: is_prefix.induct) auto

lemma indexOf_Some_split:
  "indexOf t p = Some i \<Longrightarrow> i \<le> length t \<and> (\<exists>post. drop i t = p @ post)"
proof (induction t arbitrary: i)
  case Nil
  then show ?case by (auto split: if_splits)
next
  case (Cons c cs)
  show ?case
  proof (cases "is_prefix p (c # cs)")
    case True
    with Cons.prems show ?thesis by (auto simp: is_prefix_iff)
  next
    case False
    with Cons.prems obtain j where "indexOf cs p = Some j" "i = Suc j"
      by auto
    with Cons.IH [of j] show ?thesis by simp
  qed
qed

lemma indexOf_prefix: "is_prefix p t \<Longrightarrow> indexOf t p = Some 0"
  by (cases t; cases p) auto

lemma indexOf_here: "indexOf (p @ post) p = Some 0"
  by (rule indexOf_prefix) (auto simp: is_prefix_iff)

lemma indexOf_least_append: "indexOf (pre @ p @ post) p = Some i \<Longrightarrow> i \<le> length pre"
proof (induction pre arbitrary: i)
  case Nil
  then show ?case by (simp add: indexOf_here)
next
  case (Cons c pre)
  then show ?case by (auto split: if_splits)
qed

lemma indexOf_least:
  "indexOf t p = Some i \<Longrightarrow> t = pre @ p @ post \<Longrightarrow> i \<le> length pre"
  using indexOf_least_append by blast

lemma indexOf_found: "\<exists>i. indexOf (pre @ p @ post) p = Some i"
proof (induction pre)
  case Nil
  show ?case by (simp add: indexOf_here)
next
  case (Cons c pre)
  then show ?case by auto
qed

lemma indexOf_None:
  "indexOf t p = None \<Longrightarrow> t \<noteq> pre @ p @ post"
  using indexOf_found [of pre p post] by auto

lemma indexOf_Some_eq:
  assumes "indexOf t p = Some i"
  shows "\<exists>post. t = take i t @ p @ post"
proof -
  from indexOf_Some_split [OF assms] obtain post where "drop i t = p @ post" by blast
  then have "t = take i t @ p @ post"
    by (metis append_take_drop_id)
  then show ?thesis ..
qed

lemma indexOf_first:
  assumes "t = pre @ p @ post"
    and "\<And>pre' post'. t = pre' @ p @ post' \<Longrightarrow> length pre \<le> length pre'"
  shows "indexOf t p = Some (length pre)"
proof -
  from indexOf_found [of pre p post] assms(1) obtain i where i: "indexOf t p = Some i"
    by auto
  from indexOf_least [OF i assms(1)] have le: "i \<le> length pre" .
  from indexOf_Some_eq [OF i] obtain post' where eq: "t = take i t @ p @ post'" by blast
  from assms(2) [OF eq] have "length pre \<le> length (take i t)" .
  with le have "i = length pre" by simp
  with i show ?thesis by simp
qed

section \<open>Facts about the file map and relocation\<close>

lemma foldl_file_map_None:
  "foldl (\<lambda>m file. m(path file \<mapsto> file)) m0 files p = None
     \<longleftrightarrow> m0 p = None \<and> p \<notin> path ` set files"
  by (induction files arbitrary: m0) auto

lemma foldl_file_map_Some:
  "foldl (\<lambda>m file. m(path file \<mapsto> file)) m0 files p = Some f
     \<Longrightarrow> m0 p = Some f \<or> (f \<in> set files \<and> path f = p)"
  by (induction files arbitrary: f rule: rev_induct) (auto split: if_splits)

lemma file_map_None_iff: "file_map files p = None \<longleftrightarrow> p \<notin> path ` set files"
  by (simp add: file_map_def foldl_file_map_None)

lemma file_map_Some: "file_map files p = Some f \<Longrightarrow> f \<in> set files \<and> path f = p"
  using foldl_file_map_Some [of Map.empty files p f] by (simp add: file_map_def)

lemma remap_None_iff:
  "remap item file = None \<longleftrightarrow>
     a_selected (f_anchor item) = [] \<or>
     (\<forall>pre post. side_text (f_side item) file \<noteq> pre @ a_selected (f_anchor item) @ post)"
proof (cases "a_selected (f_anchor item) = []")
  case True
  then show ?thesis by (simp add: remap_def)
next
  case False
  show ?thesis
  proof (cases "indexOf (side_text (f_side item) file) (a_selected (f_anchor item))")
    case None
    with False indexOf_None [OF None] show ?thesis
      by (simp add: remap_def)
  next
    case (Some i)
    from indexOf_Some_eq [OF Some] False Some show ?thesis
      by (auto simp: remap_def Let_def)
  qed
qed

lemma remap_first:
  assumes "a_selected (f_anchor item) \<noteq> []"
    and "side_text (f_side item) file = pre @ a_selected (f_anchor item) @ post"
    and "\<And>pre' post'. side_text (f_side item) file = pre' @ a_selected (f_anchor item) @ post'
           \<Longrightarrow> length pre \<le> length pre'"
  shows "remap item file =
           Some (1 + int (count_list pre nl),
                 1 + int (count_list pre nl) + int (count_list (a_selected (f_anchor item)) nl))"
proof -
  from indexOf_first [OF assms(2)] assms(3)
  have "indexOf (side_text (f_side item) file) (a_selected (f_anchor item)) = Some (length pre)"
    by blast
  moreover have "take (length pre) (side_text (f_side item) file) = pre"
    by (simp add: assms(2))
  ultimately show ?thesis
    using assms(1) by (simp add: remap_def Let_def length_split_nl)
qed

lemma remap_frame [simp]:
  "remap (item\<lparr> f_start_line := a, f_end_line := b, f_updated_at := t \<rparr>) file = remap item file"
  by (simp add: remap_def Let_def split: option.splits)

section \<open>Facts about the reconciler\<close>

lemma reconcile_nth:
  "i < length findings \<Longrightarrow>
     reconcile files now findings ! i = reconcile_item (file_map files) now (findings ! i)"
  by (simp add: reconcile_def)

lemma reconcile_item_closed: "f_status item \<noteq> Open \<Longrightarrow> reconcile_item m now item = item"
  by (simp add: reconcile_item_def)

lemma reconcile_item_open_result:
  "f_status (reconcile_item m now item) = Open \<Longrightarrow>
     reconcile_item m now item =
       item\<lparr> f_start_line := f_start_line (reconcile_item m now item),
             f_end_line := f_end_line (reconcile_item m now item),
             f_updated_at := f_updated_at (reconcile_item m now item) \<rparr>"
proof (cases "f_status item = Open")
  case False
  then show ?thesis by (simp add: reconcile_item_def)
next
  case True
  assume still: "f_status (reconcile_item m now item) = Open"
  show ?thesis
  proof (cases "m (f_file item)")
    case None
    with True still show ?thesis by (simp add: reconcile_item_def)
  next
    case (Some fl)
    show ?thesis
    proof (cases "remap item fl")
      case None
      with True Some still show ?thesis by (simp add: reconcile_item_def)
    next
      case (Some range)
      obtain a b where "range = (a, b)" by (cases range)
      with True \<open>m (f_file item) = Some fl\<close> Some
      have "reconcile_item m now item =
              item\<lparr> f_start_line := a, f_end_line := b, f_updated_at := now \<rparr>"
        by (simp add: reconcile_item_def)
      then show ?thesis by simp
    qed
  qed
qed

lemma reconcile_item_id: "f_id (reconcile_item m now item) = f_id item"
  by (simp add: reconcile_item_def split: option.splits)

lemma reconcile_item_anchor: "f_anchor (reconcile_item m now item) = f_anchor item"
  by (simp add: reconcile_item_def split: option.splits)

lemma reconcile_item_fields:
  "f_file (reconcile_item m now item) = f_file item"
  "f_side (reconcile_item m now item) = f_side item"
  "f_category (reconcile_item m now item) = f_category item"
  "f_severity (reconcile_item m now item) = f_severity item"
  "f_comment (reconcile_item m now item) = f_comment item"
  "f_round (reconcile_item m now item) = f_round item"
  "f_created_at (reconcile_item m now item) = f_created_at item"
  by (simp_all add: reconcile_item_def split: option.splits)

lemma reconcile_item_stays_open:
  "f_status (reconcile_item m now item) = Open \<Longrightarrow> f_status item = Open"
  by (simp add: reconcile_item_def split: if_splits)

lemma reconcile_ids: "map f_id (reconcile files now findings) = map f_id findings"
  by (simp add: reconcile_def reconcile_item_id)

lemma reconcile_item_twice:
  "reconcile_item m t2 (reconcile_item m t1 item) =
     (if f_status (reconcile_item m t1 item) = Open
      then (reconcile_item m t1 item)\<lparr> f_updated_at := t2 \<rparr>
      else reconcile_item m t1 item)"
proof (cases "f_status item = Open")
  case False
  then show ?thesis by (simp add: reconcile_item_def)
next
  case True
  show ?thesis
  proof (cases "m (f_file item)")
    case None
    with True show ?thesis by (simp add: reconcile_item_def)
  next
    case (Some fl)
    show ?thesis
    proof (cases "remap item fl")
      case None
      with True Some show ?thesis by (simp add: reconcile_item_def)
    next
      case (Some range)
      obtain a b where range: "range = (a, b)" by (cases range)
      have first: "reconcile_item m t1 item =
                     item\<lparr> f_start_line := a, f_end_line := b, f_updated_at := t1 \<rparr>"
        using True \<open>m (f_file item) = Some fl\<close> Some range by (simp add: reconcile_item_def)
      have "reconcile_item m t2 (item\<lparr> f_start_line := a, f_end_line := b, f_updated_at := t1 \<rparr>) =
              item\<lparr> f_start_line := a, f_end_line := b, f_updated_at := t2 \<rparr>"
        using True \<open>m (f_file item) = Some fl\<close> Some range by (simp add: reconcile_item_def)
      with first True show ?thesis by simp
    qed
  qed
qed

section \<open>Facts about capture\<close>

lemma count_list_take_le: "count_list (take i xs) c \<le> count_list xs c"
proof -
  have "count_list xs c = count_list (take i xs) c + count_list (drop i xs) c"
    by (metis append_take_drop_id count_list_append)
  then show ?thesis by simp
qed

lemma join_nl_middle:
  assumes "S \<noteq> []" and "\<forall>l \<in> set A. nl \<notin> set l"
  shows "\<exists>pre post. join_nl (A @ S @ B) = pre @ join_nl S @ post \<and>
           count_list pre nl = length A"
proof -
  have tail: "\<exists>post. join_nl (S @ B) = join_nl S @ post"
  proof (cases "B = []")
    case True
    then show ?thesis by simp
  next
    case False
    with assms(1) show ?thesis by (simp add: join_nl_append)
  qed
  then obtain post where post: "join_nl (S @ B) = join_nl S @ post" ..
  show ?thesis
  proof (cases "A = []")
    case True
    with post have "join_nl (A @ S @ B) = [] @ join_nl S @ post \<and> count_list [] nl = length A"
      by simp
    then show ?thesis by blast
  next
    case False
    from assms(1) have "S @ B \<noteq> []" by simp
    with False have "join_nl (A @ S @ B) = join_nl A @ nl # join_nl (S @ B)"
      by (rule join_nl_append)
    with post have eq: "join_nl (A @ S @ B) = (join_nl A @ [nl]) @ join_nl S @ post"
      by simp
    from False assms(2) have "count_list (join_nl A) nl = length A - 1"
      by (rule count_join_nl)
    with False have "count_list (join_nl A @ [nl]) nl = length A"
      by (cases A) simp_all
    with eq show ?thesis by blast
  qed
qed

lemma slice_valid:
  assumes "1 \<le> a" and "a \<le> b" and "b \<le> int (length xs)"
  shows "slice xs (a - 1) b = take (nat (b - a + 1)) (drop (nat (a - 1)) xs)"
proof -
  have k: "min (a - 1) (int (length xs)) = a - 1" using assms by simp
  have fin: "min b (int (length xs)) = b" using assms by simp
  have n: "nat (b - (a - 1)) = nat (b - a + 1)" by (simp add: algebra_simps)
  have "\<not> a - 1 < 0" and "\<not> b < 0" using assms by simp_all
  then show ?thesis
    by (simp only: slice_def Let_def if_False k fin n)
qed

lemma anchor_selected_valid:
  assumes "1 \<le> a" and "a \<le> b" and "b \<le> int (length (split_nl text))"
  shows "a_selected (anchor text a b) =
           join_nl (take (nat (b - a + 1)) (drop (nat (a - 1)) (split_nl text)))"
proof -
  let ?len = "int (length (split_nl text))"
  have n: "normalize a b = (a, b)" using assms(2) by (simp add: normalize_def)
  have len: "?len \<noteq> 0" by (simp add: split_nl_not_Nil)
  have bgn: "max 1 (min a ?len) = a" using assms by simp
  have finish: "max a (min b ?len) = b" using assms by simp
  have "a_selected (anchor text a b) = join_nl (slice (split_nl text) (a - 1) b)"
    by (simp only: anchor_def n Let_def prod.case len if_False bgn finish anchor.simps)
  then show ?thesis
    using assms by (simp only: slice_valid)
qed

lemma text_around_selected:
  assumes "1 \<le> a" and "a \<le> b" and "b \<le> int (length (split_nl text))"
  shows "\<exists>pre post. text = pre @ a_selected (anchor text a b) @ post \<and>
           int (count_list pre nl) = a - 1"
    and "int (count_list (a_selected (anchor text a b)) nl) = b - a"
proof -
  let ?lines = "split_nl text"
  let ?A = "take (nat (a - 1)) ?lines"
  let ?S = "take (nat (b - a + 1)) (drop (nat (a - 1)) ?lines)"
  let ?B = "drop (nat (b - a + 1)) (drop (nat (a - 1)) ?lines)"
  have sel: "a_selected (anchor text a b) = join_nl ?S"
    using assms by (rule anchor_selected_valid)
  have lines: "?lines = ?A @ ?S @ ?B" by (simp only: append_take_drop_id)
  have lenA: "length ?A = nat (a - 1)" using assms by simp
  have lenS: "length ?S = nat (b - a + 1)" using assms by simp
  then have S: "?S \<noteq> []" using assms by auto
  have free: "\<forall>l \<in> set ?lines. nl \<notin> set l" by (simp add: split_nl_no_nl)
  then have freeA: "\<forall>l \<in> set ?A. nl \<notin> set l" by (meson in_set_takeD)
  from free have freeS: "\<forall>l \<in> set ?S. nl \<notin> set l" by (meson in_set_takeD in_set_dropD)
  from join_nl_middle [OF S freeA, of ?B] obtain pre post
    where mid: "join_nl (?A @ ?S @ ?B) = pre @ join_nl ?S @ post"
      and cnt: "count_list pre nl = length ?A"
    by blast
  have "text = join_nl ?lines" by (simp only: join_split_nl)
  also have "\<dots> = join_nl (?A @ ?S @ ?B)" by (rule arg_cong [OF lines])
  also have "\<dots> = pre @ a_selected (anchor text a b) @ post" by (simp only: mid sel)
  finally have occ: "text = pre @ a_selected (anchor text a b) @ post" .
  from cnt lenA assms(1) have "int (count_list pre nl) = a - 1" by simp
  with occ show "\<exists>pre post. text = pre @ a_selected (anchor text a b) @ post \<and>
           int (count_list pre nl) = a - 1"
    by blast
  from count_join_nl [OF S freeS] lenS assms
  show "int (count_list (a_selected (anchor text a b)) nl) = b - a"
    by (simp add: sel)
qed

section \<open>Facts about the sanitizer\<close>

lemma isString_iff: "isString v \<longleftrightarrow> (\<exists>s. v = Str s)"
  by (cases v) (simp_all add: isString_def)

lemma js_includes_iff: "js_includes xs v \<longleftrightarrow> (\<exists>s. v = Str s \<and> s \<in> set xs)"
  by (cases v) (simp_all add: js_includes_def)

lemma isFinite_iff: "isFinite v \<longleftrightarrow> (\<exists>q. v = Num (Finite q))"
proof (cases v)
  case (Num n)
  then show ?thesis by (cases n) (simp_all add: isFinite_def)
qed (simp_all add: isFinite_def)

lemma str_of_Str [simp]: "str_of (Str s) = s"
  by (simp add: str_of_def)

lemma num_of_Finite [simp]: "num_of (Num (Finite q)) = q"
  by (simp add: num_of_def)

lemma item_id_declared:
  "id_declared v \<Longrightarrow> \<exists>id'. item_id v fallback = Inr id'"
  by (cases v) (simp_all add: id_declared_def item_id_def)

text \<open>The finding the object literal of the callback builds.\<close>

lemma sanitize_item_valid:
  assumes "spec_valid files item"
  obtains p fl c sd cat sev s e
  where "d_file item = Str p" and "p \<noteq> []" and "files p = Some fl"
    and "d_comment item = Str c" and "trim c \<noteq> []"
    and "d_side item = Str sd" and "sd \<in> set sides"
    and "d_category item = Str cat" and "cat \<in> set categories"
    and "d_severity item = Str sev" and "sev \<in> set severities"
    and "d_start_line item = Num (Finite s)" and "d_end_line item = Num (Finite e)"
    and "trim (a_selected (anchor (side_text sd fl)
                 (spec_start_line s e) (spec_end_line s e))) \<noteq> []"
    and "sanitize_item round' files now uuid (Item item) index =
             (case item_id (d_id item) (synth_id round' index (uuid index)) of
                Inl err \<Rightarrow> Inl err
              | Inr id' \<Rightarrow>
                  Inr [\<lparr> f_id = id', f_round = round', f_file = p, f_side = sd,
                         f_start_line = spec_start_line s e, f_end_line = spec_end_line s e,
                         f_category = cat, f_severity = sev, f_comment = trim c,
                         f_status = Open,
                         f_anchor = anchor (side_text sd fl)
                                      (spec_start_line s e) (spec_end_line s e),
                         f_created_at = now, f_updated_at = now,
                         f_closed_at = None, f_close_reason = None \<rparr>])"
proof -
  from assms obtain p where p: "d_file item = Str p" "p \<noteq> []"
    by (cases "d_file item") (simp_all add: spec_valid_def)
  from assms p obtain fl where fl: "files p = Some fl"
    by (cases "files p") (simp_all add: spec_valid_def)
  from assms p fl obtain c where c: "d_comment item = Str c" "trim c \<noteq> []"
    by (cases "d_comment item") (simp_all add: spec_valid_def)
  from assms p fl obtain cat where cat: "d_category item = Str cat" "cat \<in> set categories"
    by (cases "d_category item") (simp_all add: spec_valid_def)
  from assms p fl obtain sev where sev: "d_severity item = Str sev" "sev \<in> set severities"
    by (cases "d_severity item") (simp_all add: spec_valid_def)
  from assms p fl c cat sev obtain sd where sd: "d_side item = Str sd" "sd \<in> set sides"
    by (cases "d_side item") (simp_all add: spec_valid_def)
  from assms p fl c cat sev sd obtain n where n: "d_start_line item = Num n"
    by (cases "d_start_line item") (simp_all add: spec_valid_def)
  with assms p fl c cat sev sd obtain s where s: "d_start_line item = Num (Finite s)"
    by (cases n) (simp_all add: spec_valid_def)
  from assms p fl c cat sev sd s obtain n' where n': "d_end_line item = Num n'"
    by (cases "d_end_line item") (simp_all add: spec_valid_def)
  with assms p fl c cat sev sd s obtain e where e: "d_end_line item = Num (Finite e)"
    by (cases n') (simp_all add: spec_valid_def)
  from assms p fl c cat sev sd s e
  have sel: "trim (a_selected (anchor (side_text sd fl)
                   (spec_start_line s e) (spec_end_line s e))) \<noteq> []"
    by (simp add: spec_valid_def)
  have eq: "sanitize_item round' files now uuid (Item item) index =
             (case item_id (d_id item) (synth_id round' index (uuid index)) of
                Inl err \<Rightarrow> Inl err
              | Inr id' \<Rightarrow>
                  Inr [\<lparr> f_id = id', f_round = round', f_file = p, f_side = sd,
                         f_start_line = spec_start_line s e, f_end_line = spec_end_line s e,
                         f_category = cat, f_severity = sev, f_comment = trim c,
                         f_status = Open,
                         f_anchor = anchor (side_text sd fl)
                                      (spec_start_line s e) (spec_end_line s e),
                         f_created_at = now, f_updated_at = now,
                         f_closed_at = None, f_close_reason = None \<rparr>])"
    using p fl c cat sev sd s e sel
    by (simp add: sanitize_item_def isString_iff isSide_def isCategory_def isSeverity_def
        js_includes_iff isFinite_iff Let_def spec_start_line_def spec_end_line_def
        split: sum.splits)
  show thesis
    by (rule that [OF p fl c sd cat sev s e sel eq])
qed

lemma sanitize_item_invalid:
  assumes "\<not> spec_valid files item"
  shows "sanitize_item round' files now uuid (Item item) index = Inr []"
proof (rule ccontr)
  assume neq: "sanitize_item round' files now uuid (Item item) index \<noteq> Inr []"
  then have g1: "isString (d_file item)" "str_of (d_file item) \<noteq> []"
    and g2: "isString (d_comment item)" "trim (str_of (d_comment item)) \<noteq> []"
    and g3: "isSide (d_side item)" and g4: "isCategory (d_category item)"
    and g5: "isSeverity (d_severity item)"
    and g6: "isFinite (d_start_line item)" "isFinite (d_end_line item)"
    by (auto simp: sanitize_item_def split: if_splits)
  from g1 obtain p where p: "d_file item = Str p" "p \<noteq> []"
    by (auto simp: isString_iff)
  from g2 obtain c where c: "d_comment item = Str c" "trim c \<noteq> []"
    by (auto simp: isString_iff)
  from g3 obtain sd where sd: "d_side item = Str sd" "sd \<in> set sides"
    by (auto simp: isSide_def js_includes_iff)
  from g4 obtain cat where cat: "d_category item = Str cat" "cat \<in> set categories"
    by (auto simp: isCategory_def js_includes_iff)
  from g5 obtain sev where sev: "d_severity item = Str sev" "sev \<in> set severities"
    by (auto simp: isSeverity_def js_includes_iff)
  from g6 obtain s e where se: "d_start_line item = Num (Finite s)" "d_end_line item = Num (Finite e)"
    by (auto simp: isFinite_iff)
  from neq g1 g2 g3 g4 g5 g6 p obtain fl where fl: "files p = Some fl"
    by (cases "files p") (simp_all add: sanitize_item_def)
  from neq g1 g2 g3 g4 g5 g6 p fl sd se
  have "trim (a_selected (anchor (side_text sd fl)
                   (spec_start_line s e) (spec_end_line s e))) \<noteq> []"
    by (auto simp: sanitize_item_def Let_def spec_start_line_def spec_end_line_def
        split: if_splits)
  with p c sd cat sev se fl have "spec_valid files item"
    by (simp add: spec_valid_def)
  with assms show False by simp
qed

lemma sanitize_from_append:
  "sanitize_from round' files now uuid index (xs @ ys) =
     (case sanitize_from round' files now uuid index xs of
        Inl e \<Rightarrow> Inl e
      | Inr a \<Rightarrow>
          (case sanitize_from round' files now uuid (index + length xs) ys of
             Inl e \<Rightarrow> Inl e
           | Inr b \<Rightarrow> Inr (a @ b)))"
proof (induction xs arbitrary: index)
  case Nil
  show ?case by (simp split: sum.splits)
next
  case (Cons x xs)
  show ?case
    by (simp add: Cons.IH split: sum.splits)
qed

lemma sanitize_from_nth:
  assumes "sanitize_from round' files now uuid index xs = Inr out" and "j < length xs"
  shows "\<exists>fs. sanitize_item round' files now uuid (xs ! j) (index + j) = Inr fs \<and>
           set fs \<subseteq> set out"
  using assms
proof (induction xs arbitrary: index j out)
  case Nil
  then show ?case by simp
next
  case (Cons x xs)
  from Cons.prems(1) obtain a b
    where a: "sanitize_item round' files now uuid x index = Inr a"
      and b: "sanitize_from round' files now uuid (Suc index) xs = Inr b"
      and out: "out = a @ b"
    by (auto split: sum.splits)
  show ?case
  proof (cases j)
    case 0
    with a out show ?thesis by simp
  next
    case (Suc k)
    with Cons.prems(2) have "k < length xs" by simp
    from Cons.IH [OF b this] Suc out show ?thesis by auto
  qed
qed

lemma sanitize_from_mem:
  assumes "sanitize_from round' files now uuid index xs = Inr out" and "f \<in> set out"
  shows "\<exists>j fs. j < length xs \<and>
           sanitize_item round' files now uuid (xs ! j) (index + j) = Inr fs \<and> f \<in> set fs"
  using assms
proof (induction xs arbitrary: index out)
  case Nil
  then show ?case by simp
next
  case (Cons x xs)
  from Cons.prems(1) obtain a b
    where a: "sanitize_item round' files now uuid x index = Inr a"
      and b: "sanitize_from round' files now uuid (Suc index) xs = Inr b"
      and out: "out = a @ b"
    by (auto split: sum.splits)
  from Cons.prems(2) out consider "f \<in> set a" | "f \<in> set b" by auto
  then show ?case
  proof cases
    case 1
    with a have "0 < length (x # xs) \<and>
        sanitize_item round' files now uuid ((x # xs) ! 0) (index + 0) = Inr a \<and> f \<in> set a"
      by simp
    then show ?thesis by blast
  next
    case 2
    from Cons.IH [OF b 2] obtain j fs where "j < length xs"
      "sanitize_item round' files now uuid (xs ! j) (Suc index + j) = Inr fs" "f \<in> set fs"
      by blast
    then have "Suc j < length (x # xs) \<and>
        sanitize_item round' files now uuid ((x # xs) ! Suc j) (index + Suc j) = Inr fs \<and>
        f \<in> set fs"
      by simp
    then show ?thesis by blast
  qed
qed

lemma sanitize_from_total:
  assumes "\<forall>x \<in> set xs. \<exists>v. x = Item v \<and> (id_declared (d_id v) \<or> \<not> spec_valid files v)"
  shows "\<exists>out. sanitize_from round' files now uuid index xs = Inr out"
  using assms
proof (induction xs arbitrary: index)
  case Nil
  show ?case by simp
next
  case (Cons x xs)
  from Cons.prems obtain v where v: "x = Item v"
    and ok: "id_declared (d_id v) \<or> \<not> spec_valid files v"
    by auto
  have "\<exists>a. sanitize_item round' files now uuid (Item v) index = Inr a"
  proof (cases "spec_valid files v")
    case False
    then show ?thesis by (simp add: sanitize_item_invalid)
  next
    case True
    with ok have idd: "id_declared (d_id v)" by simp
    from item_id_declared [OF idd] obtain id'
      where id': "item_id (d_id v) (synth_id round' index (uuid index)) = Inr id'"
      by blast
    from True show ?thesis
    proof (rule sanitize_item_valid [where round' = round' and now = now and uuid = uuid
          and index = index])
      fix p fl c sd cat sev s e
      assume "sanitize_item round' files now uuid (Item v) index =
             (case item_id (d_id v) (synth_id round' index (uuid index)) of
                Inl err \<Rightarrow> Inl err
              | Inr id' \<Rightarrow>
                  Inr [\<lparr> f_id = id', f_round = round', f_file = p, f_side = sd,
                         f_start_line = spec_start_line s e, f_end_line = spec_end_line s e,
                         f_category = cat, f_severity = sev, f_comment = trim c,
                         f_status = Open,
                         f_anchor = anchor (side_text sd fl)
                                      (spec_start_line s e) (spec_end_line s e),
                         f_created_at = now, f_updated_at = now,
                         f_closed_at = None, f_close_reason = None \<rparr>])"
      with id' show ?thesis by simp
    qed
  qed
  moreover from Cons.prems have "\<exists>b. sanitize_from round' files now uuid (Suc index) xs = Inr b"
    by (intro Cons.IH) simp
  ultimately show ?case using v by auto
qed

lemma anchor_past_end:
  assumes "int (length (split_nl text)) < a" and "a \<le> b"
  shows "anchor text a b =
           \<lparr> a_before = line_at (split_nl text) (int (length (split_nl text)) - 2),
             a_selected = last (split_nl text),
             a_after = [] \<rparr>"
proof -
  let ?lines = "split_nl text"
  let ?len = "int (length ?lines)"
  have n: "normalize a b = (a, b)" using assms(2) by (simp add: normalize_def)
  have len: "?len \<noteq> 0" by (simp add: split_nl_not_Nil)
  have pos: "1 \<le> ?len" using split_nl_not_Nil [of "text"] by (cases ?lines) simp_all
  have bgn: "max 1 (min a ?len) = ?len" using assms pos by simp
  have finish: "max ?len (min b ?len) = ?len" using assms by simp
  have sl: "slice ?lines (?len - 1) ?len = [last ?lines]"
  proof -
    have "slice ?lines (?len - 1) ?len = take (nat (?len - ?len + 1)) (drop (nat (?len - 1)) ?lines)"
      using pos by (intro slice_valid) simp_all
    also have "\<dots> = drop (length ?lines - 1) ?lines"
      using pos by (simp add: nat_diff_distrib')
    also have "\<dots> = [last ?lines]"
      using split_nl_not_Nil [of "text"]
      by (metis One_nat_def append_butlast_last_id append_eq_conv_conj length_butlast)
    finally show ?thesis .
  qed
  have after_end: "line_at ?lines ?len = []" by (simp add: line_at_def)
  have "anchor text a b =
          \<lparr> a_before = line_at ?lines (?len - 2),
            a_selected = join_nl (slice ?lines (?len - 1) ?len),
            a_after = line_at ?lines ?len \<rparr>"
    by (simp only: anchor_def n Let_def prod.case len if_False bgn finish)
  then show ?thesis
    by (simp only: sl after_end join_nl.simps)
qed

text \<open>
  What the sanitizer does with an entry that is an object and fails a check (it is not
  valid in the sense of \<open>spec_valid\<close>): its callback returns no finding and does not
  raise, and the batch around it gives what the entries before it and after it give at
  their own positions.  A valid entry whose id has its declared type gives one finding,
  which the batch's result holds whenever the batch returns; the batch returns when all
  its other entries are objects whose id has its declared type.
\<close>

lemma sanitize_skips_object:
  assumes "\<not> spec_valid files item"
  shows "sanitize_item round' files now uuid (Item item) index = Inr [] \<and>
         sanitize (pre @ Item item # post) round' files now uuid =
           (case sanitize_from round' files now uuid 0 pre of
              Inl err \<Rightarrow> Inl err
            | Inr a \<Rightarrow>
                (case sanitize_from round' files now uuid (Suc (length pre)) post of
                   Inl err \<Rightarrow> Inl err
                 | Inr b \<Rightarrow> Inr (a @ b))) \<and>
         (\<forall>j v. j < length (pre @ Item item # post) \<and> (pre @ Item item # post) ! j = Item v \<and>
                 spec_valid files v \<and> id_declared (d_id v) \<longrightarrow>
                 (\<exists>g. sanitize_item round' files now uuid (Item v) j = Inr [g] \<and>
                      (\<forall>out. sanitize (pre @ Item item # post) round' files now uuid = Inr out
                             \<longrightarrow> g \<in> set out))) \<and>
         ((\<forall>x \<in> set (pre @ post). \<exists>v. x = Item v \<and> id_declared (d_id v)) \<longrightarrow>
            (\<exists>out. sanitize (pre @ Item item # post) round' files now uuid = Inr out))"
proof (intro conjI allI impI)
  show skip: "sanitize_item round' files now uuid (Item item) index = Inr []" for index
    using assms by (rule sanitize_item_invalid)
  show "sanitize (pre @ Item item # post) round' files now uuid =
           (case sanitize_from round' files now uuid 0 pre of
              Inl err \<Rightarrow> Inl err
            | Inr a \<Rightarrow>
                (case sanitize_from round' files now uuid (Suc (length pre)) post of
                   Inl err \<Rightarrow> Inl err
                 | Inr b \<Rightarrow> Inr (a @ b)))"
    by (simp add: sanitize_def sanitize_from_append skip split: sum.splits)
next
  fix j v
  assume h: "j < length (pre @ Item item # post) \<and> (pre @ Item item # post) ! j = Item v \<and>
                 spec_valid files v \<and> id_declared (d_id v)"
  then have valid: "spec_valid files v" and idd: "id_declared (d_id v)" by simp_all
  from item_id_declared [OF idd] obtain id'
    where id': "item_id (d_id v) (synth_id round' j (uuid j)) = Inr id'"
    by blast
  from valid obtain g where g: "sanitize_item round' files now uuid (Item v) j = Inr [g]"
  proof (rule sanitize_item_valid [where round' = round' and now = now and uuid = uuid
        and index = j])
    fix p fl c sd cat sev s e
    assume "sanitize_item round' files now uuid (Item v) j =
             (case item_id (d_id v) (synth_id round' j (uuid j)) of
                Inl err \<Rightarrow> Inl err
              | Inr id' \<Rightarrow>
                  Inr [\<lparr> f_id = id', f_round = round', f_file = p, f_side = sd,
                         f_start_line = spec_start_line s e, f_end_line = spec_end_line s e,
                         f_category = cat, f_severity = sev, f_comment = trim c,
                         f_status = Open,
                         f_anchor = anchor (side_text sd fl)
                                      (spec_start_line s e) (spec_end_line s e),
                         f_created_at = now, f_updated_at = now,
                         f_closed_at = None, f_close_reason = None \<rparr>])"
    with id' that show ?thesis by simp
  qed
  have "g \<in> set out"
    if "sanitize (pre @ Item item # post) round' files now uuid = Inr out" for out
  proof -
    from that have "sanitize_from round' files now uuid 0 (pre @ Item item # post) = Inr out"
      by (simp add: sanitize_def)
    from sanitize_from_nth [OF this, of j] h g show ?thesis by auto
  qed
  with g show "\<exists>g. sanitize_item round' files now uuid (Item v) j = Inr [g] \<and>
      (\<forall>out. sanitize (pre @ Item item # post) round' files now uuid = Inr out
             \<longrightarrow> g \<in> set out)"
    by blast
next
  assume "\<forall>x \<in> set (pre @ post). \<exists>v. x = Item v \<and> id_declared (d_id v)"
  with assms
  have "\<forall>x \<in> set (pre @ Item item # post).
          \<exists>v. x = Item v \<and> (id_declared (d_id v) \<or> \<not> spec_valid files v)"
    by auto
  from sanitize_from_total [OF this]
  show "\<exists>out. sanitize (pre @ Item item # post) round' files now uuid = Inr out"
    by (simp add: sanitize_def)
qed

section \<open>Facts about synthesised ids\<close>

lemma of_char_digit: "d < 10 \<Longrightarrow> of_char (digit d) = (48 + d :: nat)"
  by (simp add: digit_def)

lemma digit_inj: "d < 10 \<Longrightarrow> d' < 10 \<Longrightarrow> digit d = digit d' \<Longrightarrow> d = d'"
  by (simp add: digit_def)

lemma digit_not_underscore: "d < 10 \<Longrightarrow> digit d \<noteq> CHR ''_''"
proof
  assume "d < 10" and "digit d = CHR ''_''"
  then have "(of_char (digit d) :: nat) = of_char CHR ''_''" by simp
  with \<open>d < 10\<close> show False by (simp add: of_char_digit)
qed

lemma show_nat_not_Nil: "show_nat n \<noteq> []"
  by (subst show_nat.simps) simp

lemma show_nat_digits: "c \<in> set (show_nat n) \<Longrightarrow> \<exists>d < 10. c = digit d"
proof (induction n rule: show_nat.induct)
  case (1 n)
  show ?case
  proof (cases "n < 10")
    case True
    with "1.prems" show ?thesis by (subst (asm) show_nat.simps) auto
  next
    case False
    from "1.prems" False have "c \<in> set (show_nat (n div 10)) \<or> c = digit (n mod 10)"
      by (subst (asm) show_nat.simps) auto
    then show ?thesis
    proof
      assume "c \<in> set (show_nat (n div 10))"
      with "1.IH" [OF False] show ?thesis .
    next
      assume "c = digit (n mod 10)"
      moreover have "n mod 10 < 10" by simp
      ultimately show ?thesis by blast
    qed
  qed
qed

lemma show_nat_no_underscore: "CHR ''_'' \<notin> set (show_nat n)"
proof
  assume "CHR ''_'' \<in> set (show_nat n)"
  from show_nat_digits [OF this] obtain d where "d < 10" "CHR ''_'' = digit d"
    by blast
  with digit_not_underscore [of d] show False by simp
qed

lemma show_nat_inj: "show_nat n = show_nat m \<Longrightarrow> n = m"
proof (induction n arbitrary: m rule: show_nat.induct)
  case (1 n)
  show ?case
  proof (cases "n < 10")
    case n: True
    show ?thesis
    proof (cases "m < 10")
      case True
      with n "1.prems" have "digit n = digit m"
        by (simp add: show_nat.simps [of n] show_nat.simps [of m])
      with n True show ?thesis by (rule digit_inj)
    next
      case False
      with n "1.prems" have "[digit n] = show_nat (m div 10) @ [digit (m mod 10)]"
        by (simp add: show_nat.simps [of n] show_nat.simps [of m])
      then have "show_nat (m div 10) = []" by simp
      with show_nat_not_Nil show ?thesis by blast
    qed
  next
    case n: False
    show ?thesis
    proof (cases "m < 10")
      case True
      with n "1.prems" have "show_nat (n div 10) @ [digit (n mod 10)] = [digit m]"
        by (simp add: show_nat.simps [of n] show_nat.simps [of m])
      then have "show_nat (n div 10) = []" by simp
      with show_nat_not_Nil show ?thesis by blast
    next
      case False
      with n "1.prems"
      have "show_nat (n div 10) @ [digit (n mod 10)] = show_nat (m div 10) @ [digit (m mod 10)]"
        by (simp add: show_nat.simps [of n] show_nat.simps [of m])
      then have hi: "show_nat (n div 10) = show_nat (m div 10)"
        and lo: "digit (n mod 10) = digit (m mod 10)"
        by simp_all
      from "1.IH" [OF n hi] have "n div 10 = m div 10" .
      moreover from lo have "n mod 10 = m mod 10" by (intro digit_inj) simp_all
      ultimately show ?thesis by (metis div_mult_mod_eq)
    qed
  qed
qed

lemma separator_split:
  "c \<notin> set A \<Longrightarrow> c \<notin> set B \<Longrightarrow> A @ c # x = B @ c # y \<Longrightarrow> A = B \<and> x = y"
proof (induction A arbitrary: B)
  case Nil
  then show ?case by (cases B) auto
next
  case (Cons a A)
  then show ?case by (cases B) auto
qed

lemma synth_id_inj:
  assumes "synth_id r i u = synth_id r' j u'"
  shows "r = r' \<and> i = j"
proof -
  from assms have "show_nat r @ CHR ''_'' # (show_nat (i + 1) @ CHR ''_'' # take 6 u) =
      show_nat r' @ CHR ''_'' # (show_nat (j + 1) @ CHR ''_'' # take 6 u')"
    by (simp add: synth_id_def)
  from separator_split [OF show_nat_no_underscore show_nat_no_underscore this]
  have r: "show_nat r = show_nat r'"
    and rest: "show_nat (i + 1) @ CHR ''_'' # take 6 u = show_nat (j + 1) @ CHR ''_'' # take 6 u'"
    by simp_all
  from separator_split [OF show_nat_no_underscore show_nat_no_underscore rest]
  have "show_nat (i + 1) = show_nat (j + 1)" by simp
  then have "i + 1 = j + 1" by (rule show_nat_inj)
  with r show ?thesis by (simp add: show_nat_inj)
qed

lemma sanitize_item_synth:
  assumes "d_id v = Undefined \<or> d_id v = Null"
    and "sanitize_item r files now uuid (Item v) i = Inr a"
  shows "a = [] \<or> (\<exists>f. a = [f] \<and> f_id f = synth_id r i (uuid i))"
proof (cases "spec_valid files v")
  case False
  with assms(2) show ?thesis by (simp add: sanitize_item_invalid)
next
  case True
  from assms(1) have id': "item_id (d_id v) (synth_id r i (uuid i)) = Inr (synth_id r i (uuid i))"
    by (auto simp: item_id_def)
  from True show ?thesis
  proof (rule sanitize_item_valid [where round' = r and now = now and uuid = uuid and index = i])
    fix p fl c sd cat sev s e
    assume "sanitize_item r files now uuid (Item v) i =
             (case item_id (d_id v) (synth_id r i (uuid i)) of
                Inl err \<Rightarrow> Inl err
              | Inr id' \<Rightarrow>
                  Inr [\<lparr> f_id = id', f_round = r, f_file = p, f_side = sd,
                         f_start_line = spec_start_line s e, f_end_line = spec_end_line s e,
                         f_category = cat, f_severity = sev, f_comment = trim c,
                         f_status = Open,
                         f_anchor = anchor (side_text sd fl)
                                      (spec_start_line s e) (spec_end_line s e),
                         f_created_at = now, f_updated_at = now,
                         f_closed_at = None, f_close_reason = None \<rparr>])"
    with id' assms(2) show ?thesis by auto
  qed
qed

lemma sanitize_from_synth:
  assumes "\<forall>x \<in> set xs. \<exists>v. x = Item v \<and> (d_id v = Undefined \<or> d_id v = Null)"
    and "sanitize_from r files now uuid i xs = Inr out"
  shows "distinct (map f_id out) \<and>
         (\<forall>f \<in> set out. \<exists>j \<ge> i. f_id f = synth_id r j (uuid j))"
  using assms
proof (induction xs arbitrary: i out)
  case Nil
  then show ?case by simp
next
  case (Cons x xs)
  from Cons.prems(1) obtain v where v: "x = Item v" "d_id v = Undefined \<or> d_id v = Null"
    by auto
  from Cons.prems(2) v(1) obtain a b
    where a: "sanitize_item r files now uuid (Item v) i = Inr a"
      and b: "sanitize_from r files now uuid (Suc i) xs = Inr b"
      and out: "out = a @ b"
    by (auto split: sum.splits)
  from Cons.prems(1) have "\<forall>x \<in> set xs. \<exists>v. x = Item v \<and> (d_id v = Undefined \<or> d_id v = Null)"
    by simp
  from Cons.IH [OF this b]
  have db: "distinct (map f_id b)"
    and ib: "\<forall>f \<in> set b. \<exists>j \<ge> Suc i. f_id f = synth_id r j (uuid j)"
    by simp_all
  from ib have ib': "\<forall>f \<in> set b. \<exists>j \<ge> i. f_id f = synth_id r j (uuid j)"
    by (meson Suc_leD)
  from sanitize_item_synth [OF v(2) a]
  show ?case
  proof
    assume "a = []"
    with out db ib' show ?thesis by simp
  next
    assume "\<exists>f. a = [f] \<and> f_id f = synth_id r i (uuid i)"
    then obtain f where f: "a = [f]" "f_id f = synth_id r i (uuid i)" by blast
    have "f_id f \<notin> f_id ` set b"
    proof
      assume "f_id f \<in> f_id ` set b"
      then obtain g where "g \<in> set b" "f_id g = f_id f" by auto
      with ib obtain j where "Suc i \<le> j" "synth_id r j (uuid j) = synth_id r i (uuid i)"
        using f(2) by metis
      with synth_id_inj show False by fastforce
    qed
    moreover have "\<exists>j \<ge> i. f_id f = synth_id r j (uuid j)"
      using f(2) by blast
    ultimately show ?thesis
      using out f(1) db ib' by simp
  qed
qed

section \<open>Facts about the round controller\<close>

lemma find_index_None: "find_index p xs = None \<longleftrightarrow> (\<forall>x \<in> set xs. \<not> p x)"
  by (induction xs) auto

lemma find_index_Some:
  "find_index p xs = Some i \<Longrightarrow> i < length xs \<and> p (xs ! i) \<and> (\<forall>j < i. \<not> p (xs ! j))"
proof (induction xs arbitrary: i)
  case Nil
  then show ?case by simp
next
  case (Cons x xs)
  show ?case
  proof (cases "p x")
    case True
    with Cons.prems show ?thesis by simp
  next
    case False
    with Cons.prems obtain k where k: "find_index p xs = Some k" "i = Suc k"
      by auto
    from Cons.IH [OF k(1)] False k(2) show ?thesis
      by (auto simp: nth_Cons split: nat.splits)
  qed
qed

lemma post_resolve_rejected:
  assumes "\<forall>fid. finding_id = Some fid \<longrightarrow>
             \<not> (\<exists>item \<in> set (s_findings (base s)). f_id item = fid \<and> f_status item = Open)"
  shows "post_resolve finding_id t0 t1 t2 s =
           ((case finding_id of None \<Rightarrow> Bad_request
             | Some fid \<Rightarrow> if fid = [] then Bad_request else Not_found), s)"
proof (cases finding_id)
  case None
  then show ?thesis by (simp add: post_resolve_def)
next
  case (Some fid)
  with assms have "find_index (\<lambda>item. f_id item = fid \<and> f_status item = Open)
      (s_findings (base s)) = None"
    by (auto simp: find_index_None)
  with Some show ?thesis by (simp add: post_resolve_def)
qed

lemma post_resolve_ok:
  assumes "fst (post_resolve finding_id t0 t1 t2 s) = Ok_response"
  obtains fid i where "finding_id = Some fid" and "fid \<noteq> []"
    and "find_index (\<lambda>item. f_id item = fid \<and> f_status item = Open) (s_findings (base s)) = Some i"
    and "base (snd (post_resolve finding_id t0 t1 t2 s)) =
           (base s)\<lparr> s_findings := (s_findings (base s))
                        [i := (s_findings (base s) ! i)
                           \<lparr> f_status := Resolved, f_updated_at := t0, f_closed_at := Some t1 \<rparr>],
                      s_updated_at := t2 \<rparr>"
    and "stored (snd (post_resolve finding_id t0 t1 t2 s)) =
           base (snd (post_resolve finding_id t0 t1 t2 s))"
proof -
  from assms obtain fid where fid: "finding_id = Some fid" "fid \<noteq> []"
    by (cases finding_id) (auto simp: post_resolve_def split: if_splits)
  with assms obtain i where
    i: "find_index (\<lambda>item. f_id item = fid \<and> f_status item = Open) (s_findings (base s)) = Some i"
    by (cases "find_index (\<lambda>item. f_id item = fid \<and> f_status item = Open) (s_findings (base s))")
      (auto simp: post_resolve_def)
  from fid i have "base (snd (post_resolve finding_id t0 t1 t2 s)) =
           (base s)\<lparr> s_findings := (s_findings (base s))
                        [i := (s_findings (base s) ! i)
                           \<lparr> f_status := Resolved, f_updated_at := t0, f_closed_at := Some t1 \<rparr>],
                      s_updated_at := t2 \<rparr>"
    and "stored (snd (post_resolve finding_id t0 t1 t2 s)) =
           base (snd (post_resolve finding_id t0 t1 t2 s))"
    by (simp_all add: post_resolve_def Let_def)
  with fid i show thesis by (rule that)
qed

lemma post_resolve_not_ok:
  "fst (post_resolve finding_id t0 t1 t2 s) \<noteq> Ok_response \<Longrightarrow>
     snd (post_resolve finding_id t0 t1 t2 s) = s"
  by (auto simp: post_resolve_def Let_def split: option.splits if_splits)

lemma post_resolve_accepts:
  assumes "fid \<noteq> []"
    and "\<exists>item \<in> set (s_findings (base s)). f_id item = fid \<and> f_status item = Open"
  shows "fst (post_resolve (Some fid) t0 t1 t2 s) = Ok_response"
proof -
  from assms(2) obtain i where
    "find_index (\<lambda>item. f_id item = fid \<and> f_status item = Open) (s_findings (base s)) = Some i"
    by (cases "find_index (\<lambda>item. f_id item = fid \<and> f_status item = Open) (s_findings (base s))")
      (auto simp: find_index_None)
  with assms(1) show ?thesis by (simp add: post_resolve_def Let_def)
qed

lemma launch_facts:
  "base (launch files st t0 t1) =
     st\<lparr> s_findings := reconcile files t0 (s_findings st), s_updated_at := t1 \<rparr>"
  "stored (launch files st t0 t1) = base (launch files st t0 t1)"
  "files_map (launch files st t0 t1) = file_map files"
  "result (launch files st t0 t1) = None"
  by (simp_all add: launch_def Let_def)

lemma handle_keeps:
  assumes "s_round (stored s) = s_round (base s)"
    and "s_findings (stored s) = s_findings (base s)"
  shows "s_round (base (handle s req)) = s_round (base s)"
    and "s_round (stored (handle s req)) = s_round (base (handle s req))"
    and "s_findings (stored (handle s req)) = s_findings (base (handle s req))"
    and "files_map (handle s req) = files_map s"
    and "result (handle s req) = result s"
proof -
  have "s_round (base (handle s req)) = s_round (base s) \<and>
        s_round (stored (handle s req)) = s_round (base (handle s req)) \<and>
        s_findings (stored (handle s req)) = s_findings (base (handle s req)) \<and>
        files_map (handle s req) = files_map s \<and>
        result (handle s req) = result s"
  proof (cases req)
    case (Put_draft input now)
    with assms show ?thesis by (simp add: put_draft_def Let_def)
  next
    case (Post_resolve finding_id t0 t1 t2)
    show ?thesis
    proof (cases "fst (post_resolve finding_id t0 t1 t2 s) = Ok_response")
      case True
      then show ?thesis
      proof (rule post_resolve_ok)
        fix fid i
        assume b: "base (snd (post_resolve finding_id t0 t1 t2 s)) =
           (base s)\<lparr> s_findings := (s_findings (base s))
                        [i := (s_findings (base s) ! i)
                           \<lparr> f_status := Resolved, f_updated_at := t0, f_closed_at := Some t1 \<rparr>],
                      s_updated_at := t2 \<rparr>"
          and st: "stored (snd (post_resolve finding_id t0 t1 t2 s)) =
                     base (snd (post_resolve finding_id t0 t1 t2 s))"
        have "files_map (snd (post_resolve finding_id t0 t1 t2 s)) = files_map s"
          and "result (snd (post_resolve finding_id t0 t1 t2 s)) = result s"
          by (simp_all add: post_resolve_def Let_def split: option.splits)
        with b st Post_resolve show ?thesis by simp
      qed
    next
      case False
      then have "snd (post_resolve finding_id t0 t1 t2 s) = s"
        by (rule post_resolve_not_ok)
      with assms Post_resolve show ?thesis by simp
    qed
  qed
  then show "s_round (base (handle s req)) = s_round (base s)"
    and "s_round (stored (handle s req)) = s_round (base (handle s req))"
    and "s_findings (stored (handle s req)) = s_findings (base (handle s req))"
    and "files_map (handle s req) = files_map s"
    and "result (handle s req) = result s"
    by simp_all
qed

lemma awaiting_keeps:
  assumes "s_round (stored s) = s_round (base s)"
    and "s_findings (stored s) = s_findings (base s)"
  shows "s_round (base (awaiting s requests)) = s_round (base s) \<and>
         s_round (stored (awaiting s requests)) = s_round (base s) \<and>
         s_findings (stored (awaiting s requests)) = s_findings (base (awaiting s requests)) \<and>
         files_map (awaiting s requests) = files_map s \<and>
         result (awaiting s requests) = result s"
  using assms
proof (induction requests arbitrary: s)
  case Nil
  then show ?case by (simp add: awaiting_def)
next
  case (Cons req requests)
  note k = handle_keeps [OF Cons.prems, of req]
  from Cons.IH [OF k(2) k(3)] k(1) k(4) k(5) show ?case
    by (simp add: awaiting_def)
qed

lemma awaiting_launch:
  "s_round (base (awaiting (launch files st t0 t1) requests)) = s_round st"
  "s_round (stored (awaiting (launch files st t0 t1) requests)) = s_round st"
  "s_findings (stored (awaiting (launch files st t0 t1) requests)) =
     s_findings (base (awaiting (launch files st t0 t1) requests))"
  "files_map (awaiting (launch files st t0 t1) requests) = file_map files"
  "result (awaiting (launch files st t0 t1) requests) = None"
  using awaiting_keeps [of "launch files st t0 t1" requests]
  by (simp_all add: launch_facts)

lemma map_f_id_update:
  "map f_id (fs[i := (fs ! i)\<lparr> f_status := a, f_updated_at := b, f_closed_at := c \<rparr>]) =
     map f_id fs"
proof (cases "i < length fs")
  case True
  then show ?thesis
    by (intro nth_equalityI) (simp_all add: nth_list_update)
next
  case False
  then have "length fs \<le> i" by simp
  then show ?thesis by (simp only: list_update_beyond)
qed

lemma post_resolve_ids:
  "map f_id (s_findings (base (snd (post_resolve finding_id t0 t1 t2 s)))) =
     map f_id (s_findings (base s))"
proof (cases "fst (post_resolve finding_id t0 t1 t2 s) = Ok_response")
  case False
  then have "snd (post_resolve finding_id t0 t1 t2 s) = s"
    by (rule post_resolve_not_ok)
  then show ?thesis by simp
next
  case True
  then show ?thesis
  proof (rule post_resolve_ok)
    fix fid i
    assume "base (snd (post_resolve finding_id t0 t1 t2 s)) =
           (base s)\<lparr> s_findings := (s_findings (base s))
                        [i := (s_findings (base s) ! i)
                           \<lparr> f_status := Resolved, f_updated_at := t0, f_closed_at := Some t1 \<rparr>],
                      s_updated_at := t2 \<rparr>"
    then show ?thesis
      by (simp add: map_f_id_update)
  qed
qed

lemma distinct_partition:
  "distinct (map f (filter (\<lambda>x. \<not> P x) xs @ filter P xs)) \<longleftrightarrow> distinct (map f xs)"
proof (induction xs)
  case Nil
  show ?case by simp
next
  case (Cons x xs)
  have mem: "f x \<in> f ` {y \<in> set xs. \<not> P y} \<or> f x \<in> f ` {y \<in> set xs. P y} \<longleftrightarrow> f x \<in> f ` set xs"
    by auto
  show ?case
  proof (cases "P x")
    case True
    with Cons.IH mem show ?thesis by (simp add: image_Un; blast)
  next
    case False
    with Cons.IH mem show ?thesis by (simp add: image_Un; blast)
  qed
qed

lemma distinct_partition_append:
  "distinct (map f (filter (\<lambda>x. \<not> P x) xs @ filter P xs @ ys)) \<longleftrightarrow>
     distinct (map f xs) \<and> distinct (map f ys) \<and> f ` set xs \<inter> f ` set ys = {}"
proof -
  let ?A = "filter (\<lambda>x. \<not> P x) xs @ filter P xs"
  have s: "set (map f ?A) = f ` set xs" by auto
  have "distinct (map f (filter (\<lambda>x. \<not> P x) xs @ filter P xs @ ys)) \<longleftrightarrow>
          distinct (map f ?A @ map f ys)"
    by simp
  also have "\<dots> \<longleftrightarrow> distinct (map f ?A) \<and> distinct (map f ys) \<and>
                       set (map f ?A) \<inter> set (map f ys) = {}"
    by (rule distinct_append)
  also have "\<dots> \<longleftrightarrow> distinct (map f xs) \<and> distinct (map f ys) \<and> f ` set xs \<inter> f ` set ys = {}"
    unfolding distinct_partition s by simp
  finally show ?thesis .
qed

lemma post_submit_findings:
  assumes "sanitize fresh (js_add1 (s_round (base s))) (files_map s) u0 uuid = Inr created"
    and "fresh = (case sb_new_findings input of Some xs \<Rightarrow> xs | None \<Rightarrow> [])"
  shows "s_findings (stored (snd (post_submit input u0 u1 uuid s))) =
           filter (\<lambda>item. f_status item \<noteq> Open) (s_findings (base s)) @
           filter (\<lambda>item. f_status item = Open) (s_findings (base s)) @ created"
  using assms by (simp add: post_submit_def Let_def resolve_def split: option.splits)

lemma js_add1_exact: "n < 2 ^ 53 \<Longrightarrow> js_add1 n = n + 1"
  by (simp add: js_add1_def)

lemma js_add1_saturates: "js_add1 (2 ^ 53) = 2 ^ 53"
  by (simp add: js_add1_def)

section \<open>The anchor codec: capture, then locate\<close>

text \<open>
  Claim C1, as stated: locating the anchor captured at lines \<open>a\<close> to \<open>b\<close> of a text in the
  same text gives \<open>a\<close> and \<open>b\<close> back.  It fails where the captured text occurs earlier
  in the document: in the two lines \<open>x\<close>, \<open>x\<close> the anchor of line 2 is located at line 1.
  It fails as well where the captured text is empty: the anchor of the only line of the
  empty document is not located at all.
\<close>

theorem locate_capture_counterexample:
  "(1::int) \<le> 2 \<and> (2::int) \<le> int (length (split_nl (''x'' @ [nl] @ ''x''))) \<and>
   remap \<lparr> f_id = ''f1'', f_round = 1, f_file = ''a.ts'', f_side = ''additions'',
        f_start_line = 2, f_end_line = 2, f_category = ''bug'', f_severity = ''high'',
        f_comment = ''leak'', f_status = Open, f_anchor = anchor (''x'' @ [nl] @ ''x'') 2 2,
        f_created_at = 3, f_updated_at = 3, f_closed_at = None, f_close_reason = None \<rparr>
     \<lparr> path = ''a.ts'', rf_status = Modified, additions = 1, deletions = 0, before = [],
        after = ''x'' @ [nl] @ ''x'' \<rparr> = Some (1, 1) \<and>
   remap \<lparr> f_id = ''f1'', f_round = 1, f_file = ''a.ts'', f_side = ''additions'',
        f_start_line = 2, f_end_line = 2, f_category = ''bug'', f_severity = ''high'',
        f_comment = ''leak'', f_status = Open, f_anchor = anchor (''x'' @ [nl] @ ''x'') 2 2,
        f_created_at = 3, f_updated_at = 3, f_closed_at = None, f_close_reason = None \<rparr>
     \<lparr> path = ''a.ts'', rf_status = Modified, additions = 1, deletions = 0, before = [],
        after = ''x'' @ [nl] @ ''x'' \<rparr> \<noteq> Some (2, 2) \<and>
   (1::int) \<le> int (length (split_nl [])) \<and>
   remap \<lparr> f_id = ''f1'', f_round = 1, f_file = ''a.ts'', f_side = ''additions'',
        f_start_line = 2, f_end_line = 2, f_category = ''bug'', f_severity = ''high'',
        f_comment = ''leak'', f_status = Open, f_anchor = anchor [] 1 1,
        f_created_at = 3, f_updated_at = 3, f_closed_at = None, f_close_reason = None \<rparr>
     \<lparr> path = ''a.ts'', rf_status = Modified, additions = 1, deletions = 0, before = [],
        after = [] \<rparr> = None"
  by code_simp

text \<open>
  Claim C1, amended.  For every text and every line pair \<open>1 \<le> a \<le> b\<close> within it whose
  captured text is not empty, locating the captured anchor in the same text succeeds and
  gives a range of the same number of lines that starts at line \<open>a\<close> or before it; it
  gives exactly \<open>a\<close> and \<open>b\<close> when no occurrence of the captured text starts on a line
  before \<open>a\<close>.
\<close>

theorem locate_capture:
  assumes "1 \<le> a" and "a \<le> b" and "b \<le> int (length (split_nl text))"
    and "f_anchor item = anchor text a b"
    and "side_text (f_side item) file = text"
    and "a_selected (f_anchor item) \<noteq> []"
  shows "\<exists>s. remap item file = Some (s, s + (b - a)) \<and> 1 \<le> s \<and> s \<le> a \<and>
           ((\<forall>pre post. text = pre @ a_selected (f_anchor item) @ post
               \<longrightarrow> a \<le> 1 + int (count_list pre nl)) \<longrightarrow> s = a)"
proof -
  let ?sel = "a_selected (f_anchor item)"
  from text_around_selected(1) [OF assms(1-3)] assms(4) obtain pre post
    where occ: "text = pre @ ?sel @ post" and pre: "int (count_list pre nl) = a - 1"
    by auto
  from text_around_selected(2) [OF assms(1-3)] assms(4)
  have size: "int (count_list ?sel nl) = b - a" by simp
  from indexOf_found [of pre ?sel post] occ obtain i where i: "indexOf text ?sel = Some i"
    by auto
  let ?s = "1 + int (count_list (take i text) nl)"
  have r: "remap item file = Some (?s, ?s + (b - a))"
    using assms(5,6) i size by (simp add: remap_def Let_def length_split_nl)
  from indexOf_least [OF i occ] have "take i text = take i pre"
    by (simp add: occ)
  then have "count_list (take i text) nl \<le> count_list pre nl"
    by (simp add: count_list_take_le)
  with pre have le: "?s \<le> a" by simp
  from indexOf_Some_eq [OF i] obtain post' where "text = take i text @ ?sel @ post'"
    by blast
  then have ge: "a \<le> ?s"
    if "\<forall>pre post. text = pre @ ?sel @ post \<longrightarrow> a \<le> 1 + int (count_list pre nl)"
    using that by blast
  from r le ge show ?thesis by auto
qed

theorem locate_capture_witness:
  "(1::int) \<le> 2 \<and> (2::int) \<le> 2 \<and> (2::int) \<le> int (length (split_nl (''y'' @ [nl] @ ''x''))) \<and>
   a_selected (anchor (''y'' @ [nl] @ ''x'') 2 2) \<noteq> [] \<and>
   remap \<lparr> f_id = ''f1'', f_round = 1, f_file = ''a.ts'', f_side = ''additions'',
        f_start_line = 2, f_end_line = 2, f_category = ''bug'', f_severity = ''high'',
        f_comment = ''leak'', f_status = Open, f_anchor = anchor (''y'' @ [nl] @ ''x'') 2 2,
        f_created_at = 3, f_updated_at = 3, f_closed_at = None, f_close_reason = None \<rparr>
     \<lparr> path = ''a.ts'', rf_status = Modified, additions = 1, deletions = 0, before = [],
        after = ''y'' @ [nl] @ ''x'' \<rparr> = Some (2, 2)"
proof -
  let ?text = "''y'' @ [nl] @ ''x''"
  let ?item = "\<lparr> f_id = ''f1'', f_round = 1, f_file = ''a.ts'', f_side = ''additions'',
        f_start_line = 2, f_end_line = 2, f_category = ''bug'', f_severity = ''high'',
        f_comment = ''leak'', f_status = Open, f_anchor = anchor (''y'' @ [nl] @ ''x'') 2 2,
        f_created_at = 3, f_updated_at = 3, f_closed_at = None, f_close_reason = None \<rparr>"
  let ?file = "\<lparr> path = ''a.ts'', rf_status = Modified, additions = 1, deletions = 0, before = [],
        after = ''y'' @ [nl] @ ''x'' \<rparr>"
  have sel: "a_selected (anchor ?text 2 2) = ''x''" by code_simp
  have h1: "(1::int) \<le> 2" and h2: "(2::int) \<le> 2" by simp_all
  have h3: "(2::int) \<le> int (length (split_nl ?text))" by code_simp
  have h4: "f_anchor ?item = anchor ?text 2 2" by simp
  have h5: "side_text (f_side ?item) ?file = ?text" by (simp add: side_text_def)
  have h6: "a_selected (f_anchor ?item) \<noteq> []" unfolding h4 sel by simp
  have later: "(2::int) \<le> 1 + int (count_list pre nl)"
    if "?text = pre @ a_selected (anchor ?text 2 2) @ post" for pre post
  proof -
    note occ = that [unfolded sel]
    show ?thesis
    proof (cases pre)
      case Nil
      with occ show ?thesis by simp
    next
      case (Cons c cs)
      with occ show ?thesis by (cases cs) (simp_all add: nl_def)
    qed
  qed
  from locate_capture [OF h1 h2 h3 h4 h5 h6] obtain s
    where s: "remap ?item ?file = Some (s, s + (2 - 2))"
      and eq: "(\<forall>pre post. ?text = pre @ a_selected (f_anchor ?item) @ post
                 \<longrightarrow> (2::int) \<le> 1 + int (count_list pre nl)) \<longrightarrow> s = 2"
    by blast
  from later eq have "s = 2" by simp
  with s have r: "remap ?item ?file = Some (2, 2)" by simp
  have h6': "a_selected (anchor ?text 2 2) \<noteq> []" unfolding sel by simp
  from h1 h2 h3 h6' r show ?thesis by (intro conjI)
qed

section \<open>The reconciler: case analysis, frame and stability\<close>

text \<open>
  Claim C2.  For every finding with status open, \<open>reconcile\<close> closes it with reason
  \<open>file_removed\<close> when no file snapshot has its path.  Otherwise, with the snapshot the
  file map holds for its path and the text of its side (\<open>before\<close> for deletions,
  \<open>after\<close> for additions): when the selected text of the stored anchor is empty or
  does not occur in that text, the finding is closed with reason \<open>anchor_missing\<close>;
  when it occurs, first after the prefix \<open>pre\<close>, the line range becomes the lines of that
  occurrence (one more than the line feeds of \<open>pre\<close>, and as many further lines as the
  selected text has line feeds) and \<open>updated_at\<close> the time of the reconciliation.
\<close>

theorem reconcile_open_cases:
  assumes "i < length findings" and "f_status (findings ! i) = Open"
  shows "let item = findings ! i;
             r = reconcile files now findings ! i;
             sel = a_selected (f_anchor item)
         in (f_file item \<notin> path ` set files \<longrightarrow>
               r = item\<lparr> f_status := Closed_auto, f_close_reason := Some File_removed,
                         f_closed_at := Some now, f_updated_at := now \<rparr>) \<and>
            (\<forall>file. file_map files (f_file item) = Some file \<longrightarrow>
               (let text = (if f_side item = ''deletions'' then before file else after file)
                in ((sel = [] \<or> (\<forall>pre post. text \<noteq> pre @ sel @ post)) \<longrightarrow>
                      r = item\<lparr> f_status := Closed_auto, f_close_reason := Some Anchor_missing,
                                f_closed_at := Some now, f_updated_at := now \<rparr>) \<and>
                   (\<forall>pre post.
                      sel \<noteq> [] \<and> text = pre @ sel @ post \<and>
                      (\<forall>pre' post'. text = pre' @ sel @ post' \<longrightarrow> length pre \<le> length pre') \<longrightarrow>
                      r = item\<lparr> f_start_line := 1 + int (count_list pre nl),
                                f_end_line := 1 + int (count_list pre nl) + int (count_list sel nl),
                                f_updated_at := now \<rparr>)))"
proof -
  let ?item = "findings ! i"
  let ?r = "reconcile files now findings ! i"
  have r: "?r = reconcile_item (file_map files) now ?item"
    using assms(1) by (simp add: reconcile_def)
  have removed: "?r = ?item\<lparr> f_status := Closed_auto, f_close_reason := Some File_removed,
                            f_closed_at := Some now, f_updated_at := now \<rparr>"
    if "f_file ?item \<notin> path ` set files"
    using that assms(2) file_map_None_iff [of files "f_file ?item"]
    by (simp add: r reconcile_item_def)
  have missing: "?r = ?item\<lparr> f_status := Closed_auto, f_close_reason := Some Anchor_missing,
                            f_closed_at := Some now, f_updated_at := now \<rparr>"
    if "file_map files (f_file ?item) = Some fl"
      and "a_selected (f_anchor ?item) = [] \<or>
           (\<forall>pre post. side_text (f_side ?item) fl \<noteq> pre @ a_selected (f_anchor ?item) @ post)"
    for fl
  proof -
    from that(2) have "remap ?item fl = None" by (simp only: remap_None_iff)
    with that(1) assms(2) show ?thesis by (simp add: r reconcile_item_def)
  qed
  have found: "?r = ?item\<lparr> f_start_line := 1 + int (count_list pre nl),
                  f_end_line := 1 + int (count_list pre nl)
                                  + int (count_list (a_selected (f_anchor ?item)) nl),
                  f_updated_at := now \<rparr>"
    if "file_map files (f_file ?item) = Some fl"
      and "a_selected (f_anchor ?item) \<noteq> []"
      and "side_text (f_side ?item) fl = pre @ a_selected (f_anchor ?item) @ post"
      and "\<forall>pre' post'. side_text (f_side ?item) fl = pre' @ a_selected (f_anchor ?item) @ post'
             \<longrightarrow> length pre \<le> length pre'"
    for fl pre post
  proof -
    from remap_first [OF that(2) that(3)] that(4)
    have "remap ?item fl =
            Some (1 + int (count_list pre nl),
                  1 + int (count_list pre nl) + int (count_list (a_selected (f_anchor ?item)) nl))"
      by blast
    with that(1) assms(2) show ?thesis by (simp add: r reconcile_item_def)
  qed
  show ?thesis
    unfolding Let_def side_text_def [symmetric]
    using removed missing found by blast
qed

theorem reconcile_open_cases_witness:
  "let item = \<lparr> f_id = ''f1'', f_round = 1, f_file = ''a.ts'', f_side = ''additions'',
                  f_start_line = 1, f_end_line = 1, f_category = ''bug'', f_severity = ''high'',
                  f_comment = ''leak'', f_status = Open,
                  f_anchor = \<lparr> a_before = [], a_selected = ''x'', a_after = [] \<rparr>,
                  f_created_at = 3, f_updated_at = 3, f_closed_at = None,
                  f_close_reason = None \<rparr>;
       other = \<lparr> path = ''b.ts'', rf_status = Modified, additions = 1, deletions = 0,
                  before = [], after = ''x'' \<rparr>;
       changed = \<lparr> path = ''a.ts'', rf_status = Modified, additions = 1, deletions = 1,
                    before = ''x'', after = ''y'' \<rparr>;
       moved = \<lparr> path = ''a.ts'', rf_status = Modified, additions = 1, deletions = 0,
                  before = ''x'', after = ''y'' @ [nl] @ ''x'' \<rparr>
   in 0 < length [item] \<and> f_status ([item] ! 0) = Open \<and>
      reconcile [other] 7 [item] ! 0 =
        item\<lparr> f_status := Closed_auto, f_close_reason := Some File_removed,
              f_closed_at := Some 7, f_updated_at := 7 \<rparr> \<and>
      reconcile [changed] 7 [item] ! 0 =
        item\<lparr> f_status := Closed_auto, f_close_reason := Some Anchor_missing,
              f_closed_at := Some 7, f_updated_at := 7 \<rparr> \<and>
      reconcile [moved] 7 [item] ! 0 =
        item\<lparr> f_start_line := 2, f_end_line := 2, f_updated_at := 7 \<rparr>"
proof -
  let ?item = "\<lparr> f_id = ''f1'', f_round = 1, f_file = ''a.ts'', f_side = ''additions'',
                  f_start_line = 1, f_end_line = 1, f_category = ''bug'', f_severity = ''high'',
                  f_comment = ''leak'', f_status = Open,
                  f_anchor = \<lparr> a_before = [], a_selected = ''x'', a_after = [] \<rparr>,
                  f_created_at = 3, f_updated_at = 3, f_closed_at = None,
                  f_close_reason = None \<rparr>"
  let ?other = "\<lparr> path = ''b.ts'', rf_status = Modified, additions = 1, deletions = 0,
                  before = [], after = ''x'' \<rparr>"
  let ?changed = "\<lparr> path = ''a.ts'', rf_status = Modified, additions = 1, deletions = 1,
                    before = ''x'', after = ''y'' \<rparr>"
  let ?moved = "\<lparr> path = ''a.ts'', rf_status = Modified, additions = 1, deletions = 0,
                  before = ''x'', after = ''y'' @ [nl] @ ''x'' \<rparr>"
  have len: "0 < length [?item]" by simp
  have opn: "f_status ([?item] ! 0) = Open" by simp
  have removed: "reconcile [?other] 7 [?item] ! 0 =
        ?item\<lparr> f_status := Closed_auto, f_close_reason := Some File_removed,
              f_closed_at := Some 7, f_updated_at := 7 \<rparr>"
    using reconcile_open_cases [OF len opn, of "[?other]" 7] by (simp add: Let_def)
  have absent: "''y'' \<noteq> pre @ ''x'' @ post" for pre post
    by (cases pre) simp_all
  have missing: "reconcile [?changed] 7 [?item] ! 0 =
        ?item\<lparr> f_status := Closed_auto, f_close_reason := Some Anchor_missing,
              f_closed_at := Some 7, f_updated_at := 7 \<rparr>"
    using reconcile_open_cases [OF len opn, of "[?changed]" 7] absent
    by (simp add: Let_def file_map_def)
  have first: "2 \<le> length pre'" if "''y'' @ [nl] @ ''x'' = pre' @ ''x'' @ post'" for pre' post'
  proof (cases pre')
    case Nil
    with that show ?thesis by simp
  next
    case (Cons c cs)
    with that show ?thesis by (cases cs) (simp_all add: nl_def)
  qed
  have occ: "''x'' \<noteq> [] \<and> ''y'' @ [nl] @ ''x'' = (''y'' @ [nl]) @ ''x'' @ [] \<and>
      (\<forall>pre' post'. ''y'' @ [nl] @ ''x'' = pre' @ ''x'' @ post'
         \<longrightarrow> length (''y'' @ [nl]) \<le> length pre')"
  proof (intro conjI allI impI)
    fix pre' post'
    assume "''y'' @ [nl] @ ''x'' = pre' @ ''x'' @ post'"
    from first [OF this] show "length (''y'' @ [nl]) \<le> length pre'" by simp
  qed simp_all
  have found: "reconcile [?moved] 7 [?item] ! 0 =
        ?item\<lparr> f_start_line := 2, f_end_line := 2, f_updated_at := 7 \<rparr>"
    using reconcile_open_cases [OF len opn, of "[?moved]" 7, unfolded Let_def,
        THEN conjunct2, THEN spec, of ?moved, THEN mp, THEN conjunct2, THEN spec, THEN spec,
        of "''y'' @ [nl]" "[]", THEN mp] occ
    by (simp add: file_map_def nl_def)
  show ?thesis
    unfolding Let_def using len opn removed missing found by (intro conjI)
qed

text \<open>
  Claim C4.  \<open>reconcile\<close> returns as many findings as it is given, with the same ids in
  the same order.  A finding that is not open is returned as it is.  A finding that is
  open afterwards (it was open and was relocated) differs from the given one in
  \<open>start_line\<close>, \<open>end_line\<close> and \<open>updated_at\<close> only: anchor, id, file, side, category,
  severity, comment, round, status and \<open>created_at\<close> are the given ones.  The anchor
  is the given one in every case.
\<close>

theorem reconcile_frame:
  "length (reconcile files now findings) = length findings \<and>
   map f_id (reconcile files now findings) = map f_id findings \<and>
   (\<forall>i < length findings.
      let item = findings ! i; r = reconcile files now findings ! i
      in (f_status item \<noteq> Open \<longrightarrow> r = item) \<and>
         (f_status r = Open \<longrightarrow>
            r = item\<lparr> f_start_line := f_start_line r, f_end_line := f_end_line r,
                      f_updated_at := f_updated_at r \<rparr> \<and>
            f_anchor r = f_anchor item \<and> f_id r = f_id item \<and> f_file r = f_file item \<and>
            f_side r = f_side item \<and> f_category r = f_category item \<and>
            f_severity r = f_severity item \<and> f_comment r = f_comment item \<and>
            f_round r = f_round item \<and> f_status r = f_status item \<and>
            f_created_at r = f_created_at item) \<and>
         f_anchor r = f_anchor item)"
proof (intro conjI allI impI)
  show "length (reconcile files now findings) = length findings"
    by (simp add: reconcile_def)
  show "map f_id (reconcile files now findings) = map f_id findings"
    by (rule reconcile_ids)
  fix i
  assume i: "i < length findings"
  let ?m = "file_map files"
  let ?item = "findings ! i"
  have r: "reconcile files now findings ! i = reconcile_item ?m now ?item"
    using i by (rule reconcile_nth)
  show "let item = findings ! i; r = reconcile files now findings ! i
      in (f_status item \<noteq> Open \<longrightarrow> r = item) \<and>
         (f_status r = Open \<longrightarrow>
            r = item\<lparr> f_start_line := f_start_line r, f_end_line := f_end_line r,
                      f_updated_at := f_updated_at r \<rparr> \<and>
            f_anchor r = f_anchor item \<and> f_id r = f_id item \<and> f_file r = f_file item \<and>
            f_side r = f_side item \<and> f_category r = f_category item \<and>
            f_severity r = f_severity item \<and> f_comment r = f_comment item \<and>
            f_round r = f_round item \<and> f_status r = f_status item \<and>
            f_created_at r = f_created_at item) \<and>
         f_anchor r = f_anchor item"
    unfolding Let_def r
  proof (intro conjI impI)
    assume "f_status ?item \<noteq> Open"
    then show "reconcile_item ?m now ?item = ?item"
      by (rule reconcile_item_closed)
  next
    assume "f_status (reconcile_item ?m now ?item) = Open"
    then show "reconcile_item ?m now ?item =
        ?item\<lparr> f_start_line := f_start_line (reconcile_item ?m now ?item),
               f_end_line := f_end_line (reconcile_item ?m now ?item),
               f_updated_at := f_updated_at (reconcile_item ?m now ?item) \<rparr>"
      by (rule reconcile_item_open_result)
  next
    assume "f_status (reconcile_item ?m now ?item) = Open"
    then show "f_status (reconcile_item ?m now ?item) = f_status ?item"
      using reconcile_item_stays_open [of ?m now ?item] by simp
  qed (simp_all only: reconcile_item_fields reconcile_item_id reconcile_item_anchor)
qed

theorem reconcile_frame_witness:
  "let closed = \<lparr> f_id = ''f1'', f_round = 1, f_file = ''a.ts'', f_side = ''additions'',
                  f_start_line = 1, f_end_line = 1, f_category = ''style'', f_severity = ''low'',
                  f_comment = ''name'', f_status = Resolved,
                  f_anchor = \<lparr> a_before = [], a_selected = ''x'', a_after = [] \<rparr>,
                  f_created_at = 3, f_updated_at = 4, f_closed_at = Some 4,
                  f_close_reason = None \<rparr>;
       item = \<lparr> f_id = ''f2'', f_round = 1, f_file = ''a.ts'', f_side = ''additions'',
                  f_start_line = 1, f_end_line = 1, f_category = ''bug'', f_severity = ''high'',
                  f_comment = ''leak'', f_status = Open,
                  f_anchor = \<lparr> a_before = [], a_selected = ''x'', a_after = [] \<rparr>,
                  f_created_at = 3, f_updated_at = 3, f_closed_at = None,
                  f_close_reason = None \<rparr>;
       moved = \<lparr> path = ''a.ts'', rf_status = Modified, additions = 1, deletions = 0,
                  before = ''x'', after = ''y'' @ [nl] @ ''x'' \<rparr>;
       r = reconcile [moved] 7 [closed, item]
   in 0 < length [closed, item] \<and> f_status ([closed, item] ! 0) \<noteq> Open \<and> r ! 0 = closed \<and>
      1 < length [closed, item] \<and> f_status (r ! 1) = Open \<and>
      r ! 1 = item\<lparr> f_start_line := 2, f_end_line := 2, f_updated_at := 7 \<rparr> \<and>
      f_anchor (r ! 1) = f_anchor item \<and> map f_id r = [''f1'', ''f2'']"
proof -
  let ?closed = "\<lparr> f_id = ''f1'', f_round = 1, f_file = ''a.ts'', f_side = ''additions'',
                  f_start_line = 1, f_end_line = 1, f_category = ''style'', f_severity = ''low'',
                  f_comment = ''name'', f_status = Resolved,
                  f_anchor = \<lparr> a_before = [], a_selected = ''x'', a_after = [] \<rparr>,
                  f_created_at = 3, f_updated_at = 4, f_closed_at = Some 4,
                  f_close_reason = None \<rparr>"
  let ?item = "\<lparr> f_id = ''f2'', f_round = 1, f_file = ''a.ts'', f_side = ''additions'',
                  f_start_line = 1, f_end_line = 1, f_category = ''bug'', f_severity = ''high'',
                  f_comment = ''leak'', f_status = Open,
                  f_anchor = \<lparr> a_before = [], a_selected = ''x'', a_after = [] \<rparr>,
                  f_created_at = 3, f_updated_at = 3, f_closed_at = None,
                  f_close_reason = None \<rparr>"
  let ?moved = "\<lparr> path = ''a.ts'', rf_status = Modified, additions = 1, deletions = 0,
                  before = ''x'', after = ''y'' @ [nl] @ ''x'' \<rparr>"
  let ?r = "reconcile [?moved] 7 [?closed, ?item]"
  note frame = reconcile_frame [of "[?moved]" 7 "[?closed, ?item]"]
  note at = frame [THEN conjunct2, THEN conjunct2, rule_format, unfolded Let_def]
  have l0: "0 < length [?closed, ?item]" and l1: "1 < length [?closed, ?item]"
    by simp_all
  have c: "f_status ([?closed, ?item] ! 0) \<noteq> Open" by simp
  have o: "f_status (?r ! 1) = Open" by code_simp
  have s: "f_start_line (?r ! 1) = 2" and e: "f_end_line (?r ! 1) = 2"
    and u: "f_updated_at (?r ! 1) = 7"
    by code_simp+
  from at [OF l0] c have r0: "?r ! 0 = ?closed" by simp
  from at [OF l1] o have "?r ! 1 = ([?closed, ?item] ! 1)
      \<lparr> f_start_line := f_start_line (?r ! 1), f_end_line := f_end_line (?r ! 1),
        f_updated_at := f_updated_at (?r ! 1) \<rparr>"
    by blast
  then have r1: "?r ! 1 = ?item\<lparr> f_start_line := 2, f_end_line := 2, f_updated_at := 7 \<rparr>"
    using s e u by simp
  from at [OF l1] have a: "f_anchor (?r ! 1) = f_anchor ?item" by simp
  from frame have ids: "map f_id ?r = [''f1'', ''f2'']" by simp
  show ?thesis
    unfolding Let_def using l0 c r0 l1 o r1 a ids by (intro conjI)
qed

text \<open>
  Claim C7.  When \<open>reconcile\<close> is applied twice with the same files, a finding that was
  not open before the first application is the same after each of them, a finding that
  is not open after the first application is left as it is by the second, and a finding
  that is open after the second has the \<open>start_line\<close> and \<open>end_line\<close> the first gave
  it.  The second application changes no status.
\<close>

theorem reconcile_twice:
  "let r1 = reconcile files t1 findings; r2 = reconcile files t2 r1
   in \<forall>i < length findings.
        (f_status (findings ! i) \<noteq> Open \<longrightarrow> r1 ! i = findings ! i \<and> r2 ! i = findings ! i) \<and>
        (f_status (r1 ! i) \<noteq> Open \<longrightarrow> r2 ! i = r1 ! i) \<and>
        (f_status (r2 ! i) = Open \<longrightarrow>
           f_start_line (r2 ! i) = f_start_line (r1 ! i) \<and>
           f_end_line (r2 ! i) = f_end_line (r1 ! i)) \<and>
        f_status (r2 ! i) = f_status (r1 ! i)"
proof -
  have "(f_status (findings ! i) \<noteq> Open \<longrightarrow>
           reconcile files t1 findings ! i = findings ! i \<and>
           reconcile files t2 (reconcile files t1 findings) ! i = findings ! i) \<and>
        (f_status (reconcile files t1 findings ! i) \<noteq> Open \<longrightarrow>
           reconcile files t2 (reconcile files t1 findings) ! i = reconcile files t1 findings ! i) \<and>
        (f_status (reconcile files t2 (reconcile files t1 findings) ! i) = Open \<longrightarrow>
           f_start_line (reconcile files t2 (reconcile files t1 findings) ! i)
             = f_start_line (reconcile files t1 findings ! i) \<and>
           f_end_line (reconcile files t2 (reconcile files t1 findings) ! i)
             = f_end_line (reconcile files t1 findings ! i)) \<and>
        f_status (reconcile files t2 (reconcile files t1 findings) ! i)
          = f_status (reconcile files t1 findings ! i)"
    if "i < length findings" for i
  proof -
    let ?m = "file_map files"
    have r1: "reconcile files t1 findings ! i = reconcile_item ?m t1 (findings ! i)"
      using that by (rule reconcile_nth)
    have "i < length (reconcile files t1 findings)"
      using that by (simp add: reconcile_def)
    then have r2: "reconcile files t2 (reconcile files t1 findings) ! i =
                 reconcile_item ?m t2 (reconcile_item ?m t1 (findings ! i))"
      by (simp add: reconcile_nth r1)
    show ?thesis
      unfolding r1 r2 reconcile_item_twice
      by (simp add: reconcile_item_closed)
  qed
  then show ?thesis unfolding Let_def by blast
qed

theorem reconcile_twice_witness:
  "let closed = \<lparr> f_id = ''f1'', f_round = 1, f_file = ''a.ts'', f_side = ''additions'',
                  f_start_line = 1, f_end_line = 1, f_category = ''style'', f_severity = ''low'',
                  f_comment = ''name'', f_status = Resolved,
                  f_anchor = \<lparr> a_before = [], a_selected = ''x'', a_after = [] \<rparr>,
                  f_created_at = 3, f_updated_at = 4, f_closed_at = Some 4,
                  f_close_reason = None \<rparr>;
       item = \<lparr> f_id = ''f2'', f_round = 1, f_file = ''a.ts'', f_side = ''additions'',
                  f_start_line = 1, f_end_line = 1, f_category = ''bug'', f_severity = ''high'',
                  f_comment = ''leak'', f_status = Open,
                  f_anchor = \<lparr> a_before = [], a_selected = ''x'', a_after = [] \<rparr>,
                  f_created_at = 3, f_updated_at = 3, f_closed_at = None,
                  f_close_reason = None \<rparr>;
       moved = \<lparr> path = ''a.ts'', rf_status = Modified, additions = 1, deletions = 0,
                  before = ''x'', after = ''y'' @ [nl] @ ''x'' \<rparr>;
       r1 = reconcile [moved] 7 [closed, item];
       r2 = reconcile [moved] 9 r1
   in 0 < length [closed, item] \<and> f_status ([closed, item] ! 0) \<noteq> Open \<and>
      r1 ! 0 = closed \<and> r2 ! 0 = closed \<and>
      1 < length [closed, item] \<and> f_status (r2 ! 1) = Open \<and>
      f_start_line (r2 ! 1) = f_start_line (r1 ! 1) \<and> f_end_line (r2 ! 1) = f_end_line (r1 ! 1) \<and>
      f_start_line (r2 ! 1) = 2 \<and> f_end_line (r2 ! 1) = 2"
proof -
  let ?closed = "\<lparr> f_id = ''f1'', f_round = 1, f_file = ''a.ts'', f_side = ''additions'',
                  f_start_line = 1, f_end_line = 1, f_category = ''style'', f_severity = ''low'',
                  f_comment = ''name'', f_status = Resolved,
                  f_anchor = \<lparr> a_before = [], a_selected = ''x'', a_after = [] \<rparr>,
                  f_created_at = 3, f_updated_at = 4, f_closed_at = Some 4,
                  f_close_reason = None \<rparr>"
  let ?item = "\<lparr> f_id = ''f2'', f_round = 1, f_file = ''a.ts'', f_side = ''additions'',
                  f_start_line = 1, f_end_line = 1, f_category = ''bug'', f_severity = ''high'',
                  f_comment = ''leak'', f_status = Open,
                  f_anchor = \<lparr> a_before = [], a_selected = ''x'', a_after = [] \<rparr>,
                  f_created_at = 3, f_updated_at = 3, f_closed_at = None,
                  f_close_reason = None \<rparr>"
  let ?moved = "\<lparr> path = ''a.ts'', rf_status = Modified, additions = 1, deletions = 0,
                  before = ''x'', after = ''y'' @ [nl] @ ''x'' \<rparr>"
  let ?r1 = "reconcile [?moved] 7 [?closed, ?item]"
  let ?r2 = "reconcile [?moved] 9 ?r1"
  note at = reconcile_twice [of "[?moved]" 7 "[?closed, ?item]" 9, unfolded Let_def, rule_format]
  have l0: "0 < length [?closed, ?item]" and l1: "1 < length [?closed, ?item]"
    by simp_all
  have c: "f_status ([?closed, ?item] ! 0) \<noteq> Open" by simp
  have o: "f_status (?r2 ! 1) = Open" by code_simp
  have s: "f_start_line (?r1 ! 1) = 2" and e: "f_end_line (?r1 ! 1) = 2"
    by code_simp+
  from at [OF l0] c have r0: "?r1 ! 0 = ?closed \<and> ?r2 ! 0 = ?closed" by simp
  from at [OF l1] o have same: "f_start_line (?r2 ! 1) = f_start_line (?r1 ! 1) \<and>
      f_end_line (?r2 ! 1) = f_end_line (?r1 ! 1)"
    by blast
  with s e have two: "f_start_line (?r2 ! 1) = 2 \<and> f_end_line (?r2 ! 1) = 2"
    by (simp only:)
  show ?thesis
    unfolding Let_def using l0 c r0 l1 o same two by (intro conjI) blast+
qed

section \<open>The sanitizer: emitted findings, skipped items, ranges past the end\<close>

text \<open>
  Claim C5.  Every finding \<open>sanitize\<close> emits comes from an item of the batch whose side,
  category and severity are strings of the three enumerations, which the finding takes
  over; its comment is the item's comment, trimmed, and that is not empty; its status
  is open; its \<open>start_line\<close> is the floor of the smaller of the item's two finite line
  numbers, at least 1, and its \<open>end_line\<close> the floor of the larger, at least
  \<open>start_line\<close>, so that \<open>start_line\<close> is never above \<open>end_line\<close>.  The item with lines
  5 and 3 gives the finding with lines 3 to 5.
\<close>

theorem sanitize_wellformed:
  assumes "sanitize items round' files now uuid = Inr out" and "f \<in> set out"
  shows "\<exists>i v c s e.
           i < length items \<and> items ! i = Item v \<and>
           d_side v = Str (f_side f) \<and> f_side f \<in> set sides \<and>
           d_category v = Str (f_category f) \<and> f_category f \<in> set categories \<and>
           d_severity v = Str (f_severity f) \<and> f_severity f \<in> set severities \<and>
           d_comment v = Str c \<and> trim c \<noteq> [] \<and> f_comment f = trim c \<and>
           f_status f = Open \<and>
           d_start_line v = Num (Finite s) \<and> d_end_line v = Num (Finite e) \<and>
           f_start_line f = max 1 \<lfloor>min s e\<rfloor> \<and>
           f_end_line f = max (f_start_line f) \<lfloor>max s e\<rfloor> \<and>
           1 \<le> f_start_line f \<and> f_start_line f \<le> f_end_line f"
proof -
  from assms(1) have "sanitize_from round' files now uuid 0 items = Inr out"
    by (simp add: sanitize_def)
  from sanitize_from_mem [OF this assms(2)] obtain j fs
    where j: "j < length items"
      and fs: "sanitize_item round' files now uuid (items ! j) j = Inr fs"
      and mem: "f \<in> set fs"
    by auto
  from fs obtain v where v: "items ! j = Item v"
    by (cases "items ! j") (simp_all add: sanitize_item_def)
  have valid: "spec_valid files v"
  proof (rule ccontr)
    assume "\<not> spec_valid files v"
    then have "sanitize_item round' files now uuid (Item v) j = Inr []"
      by (rule sanitize_item_invalid)
    with fs v mem show False by simp
  qed
  from valid show ?thesis
  proof (rule sanitize_item_valid [where round' = round' and now = now and uuid = uuid
        and index = j])
    fix p fl c sd cat sev s e
    assume side: "d_side v = Str sd" "sd \<in> set sides"
      and cat: "d_category v = Str cat" "cat \<in> set categories"
      and sev: "d_severity v = Str sev" "sev \<in> set severities"
      and com: "d_comment v = Str c" "trim c \<noteq> []"
      and lines: "d_start_line v = Num (Finite s)" "d_end_line v = Num (Finite e)"
      and eq: "sanitize_item round' files now uuid (Item v) j =
             (case item_id (d_id v) (synth_id round' j (uuid j)) of
                Inl err \<Rightarrow> Inl err
              | Inr id' \<Rightarrow>
                  Inr [\<lparr> f_id = id', f_round = round', f_file = p, f_side = sd,
                         f_start_line = spec_start_line s e, f_end_line = spec_end_line s e,
                         f_category = cat, f_severity = sev, f_comment = trim c,
                         f_status = Open,
                         f_anchor = anchor (side_text sd fl)
                                      (spec_start_line s e) (spec_end_line s e),
                         f_created_at = now, f_updated_at = now,
                         f_closed_at = None, f_close_reason = None \<rparr>])"
    from eq fs v mem obtain id' where
      f: "f = \<lparr> f_id = id', f_round = round', f_file = p, f_side = sd,
                         f_start_line = spec_start_line s e, f_end_line = spec_end_line s e,
                         f_category = cat, f_severity = sev, f_comment = trim c,
                         f_status = Open,
                         f_anchor = anchor (side_text sd fl)
                                      (spec_start_line s e) (spec_end_line s e),
                         f_created_at = now, f_updated_at = now,
                         f_closed_at = None, f_close_reason = None \<rparr>"
      by (cases "item_id (d_id v) (synth_id round' j (uuid j))") auto
    have fields: "f_side f = sd" "f_category f = cat" "f_severity f = sev"
      "f_comment f = trim c" "f_status f = Open"
      "f_start_line f = spec_start_line s e" "f_end_line f = spec_end_line s e"
      by (simp_all add: f)
    have "j < length items \<and> items ! j = Item v \<and>
           d_side v = Str (f_side f) \<and> f_side f \<in> set sides \<and>
           d_category v = Str (f_category f) \<and> f_category f \<in> set categories \<and>
           d_severity v = Str (f_severity f) \<and> f_severity f \<in> set severities \<and>
           d_comment v = Str c \<and> trim c \<noteq> [] \<and> f_comment f = trim c \<and>
           f_status f = Open \<and>
           d_start_line v = Num (Finite s) \<and> d_end_line v = Num (Finite e) \<and>
           f_start_line f = max 1 \<lfloor>min s e\<rfloor> \<and>
           f_end_line f = max (f_start_line f) \<lfloor>max s e\<rfloor> \<and>
           1 \<le> f_start_line f \<and> f_start_line f \<le> f_end_line f"
      unfolding fields using j v side cat sev com lines
      by (simp add: spec_start_line_def spec_end_line_def)
    then show ?thesis by (intro exI)
  qed
qed

theorem sanitize_wellformed_witness:
  "let items = [Item \<lparr> d_id = Undefined, d_file = Str ''x.ts'', d_side = Str ''additions'',
          d_start_line = Num (Finite 5), d_end_line = Num (Finite 3),
          d_category = Str ''bug'', d_severity = Str ''high'',
          d_comment = Str ''leak'' \<rparr>];
       files = file_map [\<lparr> path = ''x.ts'', rf_status = Modified, additions = 5, deletions = 0, before = [],
          after = ''a'' @ [nl] @ ''b'' @ [nl] @ ''c'' @ [nl] @ ''d'' @ [nl] @ ''e'' \<rparr>];
       f = \<lparr> f_id = ''finding_1_1_3f9a1c'', f_round = 1, f_file = ''x.ts'', f_side = ''additions'',
          f_start_line = 3, f_end_line = 5, f_category = ''bug'',
          f_severity = ''high'', f_comment = ''leak'', f_status = Open,
          f_anchor = \<lparr> a_before = ''b'', a_selected = ''c'' @ [nl] @ ''d'' @ [nl] @ ''e'', a_after = [] \<rparr>,
          f_created_at = 7, f_updated_at = 7, f_closed_at = None,
          f_close_reason = None \<rparr>
   in sanitize items 1 files 7 (\<lambda>i. ''3f9a1c0e-7b2d'') = Inr [f] \<and> f \<in> set [f] \<and>
      f_start_line f = 3 \<and> f_end_line f = 5 \<and>
      (\<exists>i v c s e.
           i < length items \<and> items ! i = Item v \<and>
           d_side v = Str (f_side f) \<and> f_side f \<in> set sides \<and>
           d_category v = Str (f_category f) \<and> f_category f \<in> set categories \<and>
           d_severity v = Str (f_severity f) \<and> f_severity f \<in> set severities \<and>
           d_comment v = Str c \<and> trim c \<noteq> [] \<and> f_comment f = trim c \<and>
           f_status f = Open \<and>
           d_start_line v = Num (Finite s) \<and> d_end_line v = Num (Finite e) \<and>
           f_start_line f = max 1 \<lfloor>min s e\<rfloor> \<and>
           f_end_line f = max (f_start_line f) \<lfloor>max s e\<rfloor> \<and>
           1 \<le> f_start_line f \<and> f_start_line f \<le> f_end_line f)"
proof -
  let ?items = "[Item \<lparr> d_id = Undefined, d_file = Str ''x.ts'', d_side = Str ''additions'',
          d_start_line = Num (Finite 5), d_end_line = Num (Finite 3),
          d_category = Str ''bug'', d_severity = Str ''high'',
          d_comment = Str ''leak'' \<rparr>]"
  let ?files = "file_map [\<lparr> path = ''x.ts'', rf_status = Modified, additions = 5, deletions = 0, before = [],
          after = ''a'' @ [nl] @ ''b'' @ [nl] @ ''c'' @ [nl] @ ''d'' @ [nl] @ ''e'' \<rparr>]"
  let ?f = "\<lparr> f_id = ''finding_1_1_3f9a1c'', f_round = 1, f_file = ''x.ts'', f_side = ''additions'',
          f_start_line = 3, f_end_line = 5, f_category = ''bug'',
          f_severity = ''high'', f_comment = ''leak'', f_status = Open,
          f_anchor = \<lparr> a_before = ''b'', a_selected = ''c'' @ [nl] @ ''d'' @ [nl] @ ''e'', a_after = [] \<rparr>,
          f_created_at = 7, f_updated_at = 7, f_closed_at = None,
          f_close_reason = None \<rparr>"
  have eq: "sanitize ?items 1 ?files 7 (\<lambda>i. ''3f9a1c0e-7b2d'') = Inr [?f]"
    by code_simp
  have mem: "?f \<in> set [?f]" by simp
  have lines: "f_start_line ?f = 3" "f_end_line ?f = 5" by simp_all
  note wf = sanitize_wellformed [OF eq mem]
  show ?thesis
    unfolding Let_def using eq mem lines wf by (intro conjI)
qed

text \<open>
  Claim C9.  An item that fails a validation check is skipped without affecting the
  rest of the batch, and every other valid item of the batch is emitted.  The sanitizer
  guards the reads of \<open>file\<close> and \<open>comment\<close> by their run-time type, but not the read
  of a property of a \<open>null\<close> entry, nor the call of \<open>trim\<close> on an id that is not a
  string.  A valid item that is emitted when it is submitted alone is lost with the
  whole batch when a \<open>null\<close> entry stands beside it, and so is it when a blank-comment
  item and an otherwise valid item with a numeric id stand beside it: the sanitizer
  raises, and the submit handler saves nothing.
\<close>

theorem sanitize_loses_batch:
  "sanitize [Item \<lparr> d_id = Undefined, d_file = Str ''x.ts'', d_side = Str ''additions'',
          d_start_line = Num (Finite 1), d_end_line = Num (Finite 1),
          d_category = Str ''style'', d_severity = Str ''low'',
          d_comment = Str ''name'' \<rparr>] 1 (file_map [\<lparr> path = ''x.ts'', rf_status = Modified, additions = 2, deletions = 0, before = [],
          after = ''a'' @ [nl] @ ''b'' \<rparr>]) 7 (\<lambda>i. ''3f9a1c0e-7b2d'') =
     Inr [\<lparr> f_id = ''finding_1_1_3f9a1c'', f_round = 1, f_file = ''x.ts'', f_side = ''additions'',
          f_start_line = 1, f_end_line = 1, f_category = ''style'',
          f_severity = ''low'', f_comment = ''name'', f_status = Open,
          f_anchor = \<lparr> a_before = [], a_selected = ''a'', a_after = ''b'' \<rparr>,
          f_created_at = 7, f_updated_at = 7, f_closed_at = None,
          f_close_reason = None \<rparr>] \<and>
   sanitize [Item \<lparr> d_id = Undefined, d_file = Str ''x.ts'', d_side = Str ''additions'',
          d_start_line = Num (Finite 1), d_end_line = Num (Finite 1),
          d_category = Str ''style'', d_severity = Str ''low'',
          d_comment = Str ''name'' \<rparr>,
             NullItem] 1 (file_map [\<lparr> path = ''x.ts'', rf_status = Modified, additions = 2, deletions = 0, before = [],
          after = ''a'' @ [nl] @ ''b'' \<rparr>]) 7 (\<lambda>i. ''3f9a1c0e-7b2d'') = Inl TypeError \<and>
   \<not> spec_valid (file_map [\<lparr> path = ''x.ts'', rf_status = Modified, additions = 2, deletions = 0, before = [],
          after = ''a'' @ [nl] @ ''b'' \<rparr>])
       \<lparr> d_id = Undefined, d_file = Str ''x.ts'', d_side = Str ''additions'',
          d_start_line = Num (Finite 2), d_end_line = Num (Finite 2),
          d_category = Str ''bug'', d_severity = Str ''high'',
          d_comment = Str ''  '' \<rparr> \<and>
   spec_valid (file_map [\<lparr> path = ''x.ts'', rf_status = Modified, additions = 2, deletions = 0, before = [],
          after = ''a'' @ [nl] @ ''b'' \<rparr>])
     \<lparr> d_id = Num (Finite 5), d_file = Str ''x.ts'', d_side = Str ''additions'',
          d_start_line = Num (Finite 2), d_end_line = Num (Finite 2),
          d_category = Str ''perf'', d_severity = Str ''medium'',
          d_comment = Str ''slow'' \<rparr> \<and>
   sanitize [Item \<lparr> d_id = Undefined, d_file = Str ''x.ts'', d_side = Str ''additions'',
          d_start_line = Num (Finite 1), d_end_line = Num (Finite 1),
          d_category = Str ''style'', d_severity = Str ''low'',
          d_comment = Str ''name'' \<rparr>,
             Item \<lparr> d_id = Undefined, d_file = Str ''x.ts'', d_side = Str ''additions'',
          d_start_line = Num (Finite 2), d_end_line = Num (Finite 2),
          d_category = Str ''bug'', d_severity = Str ''high'',
          d_comment = Str ''  '' \<rparr>,
             Item \<lparr> d_id = Num (Finite 5), d_file = Str ''x.ts'', d_side = Str ''additions'',
          d_start_line = Num (Finite 2), d_end_line = Num (Finite 2),
          d_category = Str ''perf'', d_severity = Str ''medium'',
          d_comment = Str ''slow'' \<rparr>] 1 (file_map [\<lparr> path = ''x.ts'', rf_status = Modified, additions = 2, deletions = 0, before = [],
          after = ''a'' @ [nl] @ ''b'' \<rparr>]) 7 (\<lambda>i. ''3f9a1c0e-7b2d'') = Inl TypeError \<and>
   fst (post_submit
          \<lparr> sb_notes = None,
            sb_new_findings = Some [Item \<lparr> d_id = Undefined, d_file = Str ''x.ts'', d_side = Str ''additions'',
          d_start_line = Num (Finite 1), d_end_line = Num (Finite 1),
          d_category = Str ''style'', d_severity = Str ''low'',
          d_comment = Str ''name'' \<rparr>,
                                    NullItem] \<rparr>
          7 8 (\<lambda>i. ''3f9a1c0e-7b2d'')
          (launch [\<lparr> path = ''x.ts'', rf_status = Modified, additions = 2, deletions = 0, before = [],
          after = ''a'' @ [nl] @ ''b'' \<rparr>]
             \<lparr> s_session_id = ''ses'', s_round = 0, s_findings = [], s_draft = None,
          s_updated_at = 0 \<rparr> 1 2)) = Inl TypeError \<and>
   stored (snd (post_submit
          \<lparr> sb_notes = None,
            sb_new_findings = Some [Item \<lparr> d_id = Undefined, d_file = Str ''x.ts'', d_side = Str ''additions'',
          d_start_line = Num (Finite 1), d_end_line = Num (Finite 1),
          d_category = Str ''style'', d_severity = Str ''low'',
          d_comment = Str ''name'' \<rparr>,
                                    NullItem] \<rparr>
          7 8 (\<lambda>i. ''3f9a1c0e-7b2d'')
          (launch [\<lparr> path = ''x.ts'', rf_status = Modified, additions = 2, deletions = 0, before = [],
          after = ''a'' @ [nl] @ ''b'' \<rparr>]
             \<lparr> s_session_id = ''ses'', s_round = 0, s_findings = [], s_draft = None,
          s_updated_at = 0 \<rparr> 1 2))) =
     stored (launch [\<lparr> path = ''x.ts'', rf_status = Modified, additions = 2, deletions = 0, before = [],
          after = ''a'' @ [nl] @ ''b'' \<rparr>]
             \<lparr> s_session_id = ''ses'', s_round = 0, s_findings = [], s_draft = None,
          s_updated_at = 0 \<rparr> 1 2)"
  by code_simp

text \<open>
  Claim C10.  A draft item that passes the checks on file, comment, side, category,
  severity and line numbers, whose id has its declared type and whose normalized
  \<open>start_line\<close> is above the number of lines of the text of its side, is not skipped
  when the last line of that text is not blank: the finding is emitted, its anchor is
  the one of the last line (the line before it as \<open>before\<close>, nothing as \<open>after\<close>), and
  its \<open>start_line\<close> and \<open>end_line\<close> are the normalized numbers of the item, past the
  end of the text.
\<close>

theorem sanitize_clamps_past_end:
  assumes "d_file item = Str p" and "p \<noteq> []" and "files p = Some fl"
    and "d_comment item = Str c" and "trim c \<noteq> []"
    and "d_side item = Str sd" and "sd \<in> set sides"
    and "d_category item = Str cat" and "cat \<in> set categories"
    and "d_severity item = Str sev" and "sev \<in> set severities"
    and "d_start_line item = Num (Finite s)" and "d_end_line item = Num (Finite e)"
    and "id_declared (d_id item)"
    and "int (length (split_nl (side_text sd fl))) < max 1 \<lfloor>min s e\<rfloor>"
    and "trim (last (split_nl (side_text sd fl))) \<noteq> []"
  shows "\<exists>f. sanitize_item round' files now uuid (Item item) index = Inr [f] \<and>
           f_anchor f =
             \<lparr> a_before = line_at (split_nl (side_text sd fl))
                            (int (length (split_nl (side_text sd fl))) - 2),
               a_selected = last (split_nl (side_text sd fl)),
               a_after = [] \<rparr> \<and>
           f_start_line f = max 1 \<lfloor>min s e\<rfloor> \<and>
           f_end_line f = max (max 1 \<lfloor>min s e\<rfloor>) \<lfloor>max s e\<rfloor> \<and>
           f_status f = Open"
proof -
  let ?text = "side_text sd fl"
  have past: "int (length (split_nl ?text)) < spec_start_line s e"
    using assms(15) by (simp add: spec_start_line_def)
  have le: "spec_start_line s e \<le> spec_end_line s e"
    by (simp add: spec_end_line_def)
  note cap = anchor_past_end [OF past le]
  from item_id_declared [OF assms(14)] obtain id'
    where id': "item_id (d_id item) (synth_id round' index (uuid index)) = Inr id'"
    by blast
  have "sanitize_item round' files now uuid (Item item) index =
          Inr [\<lparr> f_id = id', f_round = round', f_file = p, f_side = sd,
                 f_start_line = spec_start_line s e, f_end_line = spec_end_line s e,
                 f_category = cat, f_severity = sev, f_comment = trim c,
                 f_status = Open,
                 f_anchor = anchor ?text (spec_start_line s e) (spec_end_line s e),
                 f_created_at = now, f_updated_at = now,
                 f_closed_at = None, f_close_reason = None \<rparr>]"
    using assms(1-13,16) id' cap
    by (simp add: sanitize_item_def isString_iff isSide_def isCategory_def isSeverity_def
        js_includes_iff isFinite_iff Let_def spec_start_line_def spec_end_line_def)
  from this [unfolded cap] show ?thesis
    by (simp add: spec_start_line_def spec_end_line_def)
qed

theorem sanitize_clamps_past_end_witness:
  "let fl = \<lparr> path = ''x.ts'', rf_status = Modified, additions = 2, deletions = 0, before = [],
          after = ''a'' @ [nl] @ ''b'' \<rparr>;
       files = file_map [fl];
       item = \<lparr> d_id = Undefined, d_file = Str ''x.ts'', d_side = Str ''additions'',
          d_start_line = Num (Finite 9), d_end_line = Num (Finite 12),
          d_category = Str ''bug'', d_severity = Str ''high'',
          d_comment = Str ''leak'' \<rparr>
   in int (length (split_nl (side_text ''additions'' fl))) < max 1 \<lfloor>min (9::rat) 12\<rfloor> \<and>
      trim (last (split_nl (side_text ''additions'' fl))) \<noteq> [] \<and>
      (\<exists>f. sanitize_item 1 files 7 (\<lambda>i. ''3f9a1c0e-7b2d'') (Item item) 0 = Inr [f] \<and>
           f_anchor f = \<lparr> a_before = ''a'', a_selected = ''b'', a_after = [] \<rparr> \<and>
           f_start_line f = 9 \<and> f_end_line f = 12 \<and> f_status f = Open)"
proof -
  let ?fl = "\<lparr> path = ''x.ts'', rf_status = Modified, additions = 2, deletions = 0, before = [],
          after = ''a'' @ [nl] @ ''b'' \<rparr>"
  let ?files = "file_map [?fl]"
  let ?item = "\<lparr> d_id = Undefined, d_file = Str ''x.ts'', d_side = Str ''additions'',
          d_start_line = Num (Finite 9), d_end_line = Num (Finite 12),
          d_category = Str ''bug'', d_severity = Str ''high'',
          d_comment = Str ''leak'' \<rparr>"
  have h1: "d_file ?item = Str ''x.ts''" and h2: "''x.ts'' \<noteq> []"
    and h4: "d_comment ?item = Str ''leak''"
    and h6: "d_side ?item = Str ''additions''"
    and h8: "d_category ?item = Str ''bug''"
    and h10: "d_severity ?item = Str ''high''"
    and h12: "d_start_line ?item = Num (Finite 9)" and h13: "d_end_line ?item = Num (Finite 12)"
    by simp_all
  have h3: "?files ''x.ts'' = Some ?fl" by (simp add: file_map_def)
  have h5: "trim ''leak'' \<noteq> []" by code_simp
  have h7: "''additions'' \<in> set sides" by (simp add: sides_def)
  have h9: "''bug'' \<in> set categories" by (simp add: categories_def)
  have h11: "''high'' \<in> set severities" by (simp add: severities_def)
  have h14: "id_declared (d_id ?item)" by (simp add: id_declared_def)
  have h15: "int (length (split_nl (side_text ''additions'' ?fl))) < max 1 \<lfloor>min (9::rat) 12\<rfloor>"
    by code_simp
  have h16: "trim (last (split_nl (side_text ''additions'' ?fl))) \<noteq> []"
    by code_simp
  have v1: "line_at (split_nl (side_text ''additions'' ?fl))
              (int (length (split_nl (side_text ''additions'' ?fl))) - 2) = ''a''"
    by code_simp
  have v2: "last (split_nl (side_text ''additions'' ?fl)) = ''b''"
    by code_simp
  have v3: "max 1 \<lfloor>min (9::rat) 12\<rfloor> = 9" "max (9::int) \<lfloor>max (9::rat) 12\<rfloor> = 12"
    by simp_all
  from sanitize_clamps_past_end [where item = "?item" and files = "?files" and p = "''x.ts''"
      and fl = "?fl" and round' = 1 and now = 7 and uuid = "(\<lambda>i. ''3f9a1c0e-7b2d'')" and index = 0,
      OF h1 h2 h3 h4 h5 h6 h7 h8 h9 h10 h11 h12 h13 h14 h15 h16]
  have "\<exists>f. sanitize_item 1 ?files 7 (\<lambda>i. ''3f9a1c0e-7b2d'') (Item ?item) 0 = Inr [f] \<and>
           f_anchor f = \<lparr> a_before = ''a'', a_selected = ''b'', a_after = [] \<rparr> \<and>
           f_start_line f = 9 \<and> f_end_line f = 12 \<and> f_status f = Open"
    by (simp only: v1 v2 v3)
  with h15 h16 show ?thesis
    unfolding Let_def by (intro conjI)
qed

section \<open>The round controller: resolve, submit, cancel\<close>

text \<open>
  Claim C8.  The resolve request succeeds only when its \<open>finding_id\<close> is the id of a
  finding of the round's state whose status is open; then the first such finding, and
  no other, becomes resolved with \<open>updated_at\<close> and \<open>closed_at\<close> stamped, and the state is
  saved.  When no open finding has the id (the id is unknown, or its findings are
  closed or resolved already) the request is rejected and the session is left as it is;
  the answer is not-found when a non-empty id was given (a missing or empty id is
  answered as a bad request, before any lookup).  A non-empty id of an open finding is
  always accepted.
\<close>

theorem resolve_precondition:
  "let fs = s_findings (base s);
       r = fst (post_resolve finding_id t0 t1 t2 s);
       s' = snd (post_resolve finding_id t0 t1 t2 s)
   in (r = Ok_response \<longrightarrow>
         (\<exists>fid i. finding_id = Some fid \<and> i < length fs \<and>
                  f_id (fs ! i) = fid \<and> f_status (fs ! i) = Open \<and>
                  (\<forall>j < i. \<not> (f_id (fs ! j) = fid \<and> f_status (fs ! j) = Open)) \<and>
                  s_findings (base s') =
                    fs[i := (fs ! i)\<lparr> f_status := Resolved, f_updated_at := t0,
                                      f_closed_at := Some t1 \<rparr>] \<and>
                  stored s' = base s')) \<and>
      ((\<forall>fid. finding_id = Some fid \<longrightarrow>
               \<not> (\<exists>item \<in> set fs. f_id item = fid \<and> f_status item = Open)) \<longrightarrow>
         s' = s \<and> r \<noteq> Ok_response \<and>
         (\<forall>fid. finding_id = Some fid \<and> fid \<noteq> [] \<longrightarrow> r = Not_found)) \<and>
      (r \<noteq> Ok_response \<longrightarrow> s' = s) \<and>
      (\<forall>fid. finding_id = Some fid \<and> fid \<noteq> [] \<and>
             (\<exists>item \<in> set fs. f_id item = fid \<and> f_status item = Open) \<longrightarrow> r = Ok_response)"
  unfolding Let_def
proof (intro conjI impI allI)
  assume ok: "fst (post_resolve finding_id t0 t1 t2 s) = Ok_response"
  let ?fs = "s_findings (base s)"
  let ?s' = "snd (post_resolve finding_id t0 t1 t2 s)"
  from ok show "\<exists>fid i. finding_id = Some fid \<and> i < length ?fs \<and>
                  f_id (?fs ! i) = fid \<and> f_status (?fs ! i) = Open \<and>
                  (\<forall>j < i. \<not> (f_id (?fs ! j) = fid \<and> f_status (?fs ! j) = Open)) \<and>
                  s_findings (base ?s') =
                    ?fs[i := (?fs ! i)\<lparr> f_status := Resolved, f_updated_at := t0,
                                      f_closed_at := Some t1 \<rparr>] \<and>
                  stored ?s' = base ?s'"
  proof (rule post_resolve_ok)
    fix fid i
    assume fid: "finding_id = Some fid"
      and i: "find_index (\<lambda>item. f_id item = fid \<and> f_status item = Open) ?fs = Some i"
      and b: "base ?s' =
           (base s)\<lparr> s_findings := ?fs
                        [i := (?fs ! i)
                           \<lparr> f_status := Resolved, f_updated_at := t0, f_closed_at := Some t1 \<rparr>],
                      s_updated_at := t2 \<rparr>"
      and st: "stored ?s' = base ?s'"
    from find_index_Some [OF i]
    have "i < length ?fs" "f_id (?fs ! i) = fid" "f_status (?fs ! i) = Open"
      "\<forall>j < i. \<not> (f_id (?fs ! j) = fid \<and> f_status (?fs ! j) = Open)"
      by simp_all
    moreover from b have "s_findings (base ?s') =
        ?fs[i := (?fs ! i)\<lparr> f_status := Resolved, f_updated_at := t0,
                                      f_closed_at := Some t1 \<rparr>]"
      by simp
    ultimately have "finding_id = Some fid \<and> i < length ?fs \<and>
                  f_id (?fs ! i) = fid \<and> f_status (?fs ! i) = Open \<and>
                  (\<forall>j < i. \<not> (f_id (?fs ! j) = fid \<and> f_status (?fs ! j) = Open)) \<and>
                  s_findings (base ?s') =
                    ?fs[i := (?fs ! i)\<lparr> f_status := Resolved, f_updated_at := t0,
                                      f_closed_at := Some t1 \<rparr>] \<and>
                  stored ?s' = base ?s'"
      using fid st by simp
    then show ?thesis by (intro exI)
  qed
next
  assume none: "\<forall>fid. finding_id = Some fid \<longrightarrow>
               \<not> (\<exists>item \<in> set (s_findings (base s)). f_id item = fid \<and> f_status item = Open)"
  note rej = post_resolve_rejected [OF none, of t0 t1 t2]
  from rej show "snd (post_resolve finding_id t0 t1 t2 s) = s" by simp
  from rej show "fst (post_resolve finding_id t0 t1 t2 s) \<noteq> Ok_response"
    by (simp split: option.splits)
  fix fid
  assume "finding_id = Some fid \<and> fid \<noteq> []"
  with rej show "fst (post_resolve finding_id t0 t1 t2 s) = Not_found" by simp
next
  assume "fst (post_resolve finding_id t0 t1 t2 s) \<noteq> Ok_response"
  then show "snd (post_resolve finding_id t0 t1 t2 s) = s"
    by (rule post_resolve_not_ok)
next
  fix fid
  assume "finding_id = Some fid \<and> fid \<noteq> [] \<and>
    (\<exists>item \<in> set (s_findings (base s)). f_id item = fid \<and> f_status item = Open)"
  then show "fst (post_resolve finding_id t0 t1 t2 s) = Ok_response"
    using post_resolve_accepts [of fid s t0 t1 t2] by simp
qed

theorem resolve_precondition_witness:
  "let s = launch [\<lparr> path = ''a.ts'', rf_status = Modified, additions = 1, deletions = 0,
          before = ''x'', after = ''y'' @ [nl] @ ''x'' \<rparr>]
             \<lparr> s_session_id = ''ses'', s_round = 1,
          s_findings = [\<lparr> f_id = ''f1'', f_round = 1, f_file = ''a.ts'', f_side = ''additions'',
          f_start_line = 1, f_end_line = 1, f_category = ''style'', f_severity = ''low'',
          f_comment = ''name'', f_status = Closed_auto,
          f_anchor = \<lparr> a_before = [], a_selected = ''z'', a_after = [] \<rparr>,
          f_created_at = 3, f_updated_at = 4, f_closed_at = Some 4,
          f_close_reason = Some Anchor_missing \<rparr>,
                        \<lparr> f_id = ''f2'', f_round = 1, f_file = ''a.ts'', f_side = ''additions'',
          f_start_line = 1, f_end_line = 1, f_category = ''bug'', f_severity = ''high'',
          f_comment = ''leak'', f_status = Open,
          f_anchor = \<lparr> a_before = [], a_selected = ''x'', a_after = [] \<rparr>,
          f_created_at = 3, f_updated_at = 3, f_closed_at = None,
          f_close_reason = None \<rparr>],
          s_draft = None, s_updated_at = 4 \<rparr> 7 8;
       s1 = snd (post_resolve (Some ''f2'') 9 10 11 s)
   in fst (post_resolve (Some ''f2'') 9 10 11 s) = Ok_response \<and>
      s_findings (base s1) =
        [\<lparr> f_id = ''f1'', f_round = 1, f_file = ''a.ts'', f_side = ''additions'',
          f_start_line = 1, f_end_line = 1, f_category = ''style'', f_severity = ''low'',
          f_comment = ''name'', f_status = Closed_auto,
          f_anchor = \<lparr> a_before = [], a_selected = ''z'', a_after = [] \<rparr>,
          f_created_at = 3, f_updated_at = 4, f_closed_at = Some 4,
          f_close_reason = Some Anchor_missing \<rparr>,
         \<lparr> f_id = ''f2'', f_round = 1, f_file = ''a.ts'', f_side = ''additions'',
          f_start_line = 2, f_end_line = 2, f_category = ''bug'', f_severity = ''high'',
          f_comment = ''leak'', f_status = Resolved,
          f_anchor = \<lparr> a_before = [], a_selected = ''x'', a_after = [] \<rparr>,
          f_created_at = 3, f_updated_at = 9, f_closed_at = Some 10,
          f_close_reason = None \<rparr>] \<and>
      stored s1 = base s1 \<and>
      post_resolve (Some ''f1'') 9 10 11 s = (Not_found, s) \<and>
      post_resolve (Some ''f9'') 9 10 11 s = (Not_found, s) \<and>
      post_resolve (Some ''f2'') 12 13 14 s1 = (Not_found, s1)"
proof -
  let ?s = "launch [\<lparr> path = ''a.ts'', rf_status = Modified, additions = 1, deletions = 0,
          before = ''x'', after = ''y'' @ [nl] @ ''x'' \<rparr>]
             \<lparr> s_session_id = ''ses'', s_round = 1,
          s_findings = [\<lparr> f_id = ''f1'', f_round = 1, f_file = ''a.ts'', f_side = ''additions'',
          f_start_line = 1, f_end_line = 1, f_category = ''style'', f_severity = ''low'',
          f_comment = ''name'', f_status = Closed_auto,
          f_anchor = \<lparr> a_before = [], a_selected = ''z'', a_after = [] \<rparr>,
          f_created_at = 3, f_updated_at = 4, f_closed_at = Some 4,
          f_close_reason = Some Anchor_missing \<rparr>,
                        \<lparr> f_id = ''f2'', f_round = 1, f_file = ''a.ts'', f_side = ''additions'',
          f_start_line = 1, f_end_line = 1, f_category = ''bug'', f_severity = ''high'',
          f_comment = ''leak'', f_status = Open,
          f_anchor = \<lparr> a_before = [], a_selected = ''x'', a_after = [] \<rparr>,
          f_created_at = 3, f_updated_at = 3, f_closed_at = None,
          f_close_reason = None \<rparr>],
          s_draft = None, s_updated_at = 4 \<rparr> 7 8"
  let ?done = "snd (post_resolve (Some ''f2'') 9 10 11 ?s)"
  let ?closed = "\<lparr> f_id = ''f1'', f_round = 1, f_file = ''a.ts'', f_side = ''additions'',
          f_start_line = 1, f_end_line = 1, f_category = ''style'', f_severity = ''low'',
          f_comment = ''name'', f_status = Closed_auto,
          f_anchor = \<lparr> a_before = [], a_selected = ''z'', a_after = [] \<rparr>,
          f_created_at = 3, f_updated_at = 4, f_closed_at = Some 4,
          f_close_reason = Some Anchor_missing \<rparr>"
  let ?item = "\<lparr> f_id = ''f2'', f_round = 1, f_file = ''a.ts'', f_side = ''additions'',
          f_start_line = 2, f_end_line = 2, f_category = ''bug'', f_severity = ''high'',
          f_comment = ''leak'', f_status = Open,
          f_anchor = \<lparr> a_before = [], a_selected = ''x'', a_after = [] \<rparr>,
          f_created_at = 3, f_updated_at = 7, f_closed_at = None,
          f_close_reason = None \<rparr>"
  let ?resolved = "\<lparr> f_id = ''f2'', f_round = 1, f_file = ''a.ts'', f_side = ''additions'',
          f_start_line = 2, f_end_line = 2, f_category = ''bug'', f_severity = ''high'',
          f_comment = ''leak'', f_status = Resolved,
          f_anchor = \<lparr> a_before = [], a_selected = ''x'', a_after = [] \<rparr>,
          f_created_at = 3, f_updated_at = 9, f_closed_at = Some 10,
          f_close_reason = None \<rparr>"
  have fs: "s_findings (base ?s) = [?closed, ?item]"
    by code_simp
  note inst = resolve_precondition [of ?s _ 9 10 11, unfolded Let_def]
  have ok: "fst (post_resolve (Some ''f2'') 9 10 11 ?s) = Ok_response"
    using inst [of "Some ''f2''", THEN conjunct2, THEN conjunct2, THEN conjunct2, rule_format,
        of "''f2''"] fs
    by simp
  from inst [of "Some ''f2''", THEN conjunct1, rule_format, OF ok] obtain i
    where i: "i < length (s_findings (base ?s))" "f_id (s_findings (base ?s) ! i) = ''f2''"
      and upd: "s_findings (base ?done) =
        (s_findings (base ?s))[i := (s_findings (base ?s) ! i)
           \<lparr> f_status := Resolved, f_updated_at := 9, f_closed_at := Some 10 \<rparr>]"
      and st: "stored ?done = base ?done"
    by auto
  from i have "i = 1" unfolding fs by (cases i) simp_all
  with upd have fs': "s_findings (base ?done) = [?closed, ?resolved]"
    unfolding fs by simp
  have closed: "post_resolve (Some ''f1'') 9 10 11 ?s = (Not_found, ?s)"
    using inst [of "Some ''f1''", THEN conjunct2, THEN conjunct1] fs
    by (simp add: prod_eq_iff)
  have unknown: "post_resolve (Some ''f9'') 9 10 11 ?s = (Not_found, ?s)"
    using inst [of "Some ''f9''", THEN conjunct2, THEN conjunct1] fs
    by (simp add: prod_eq_iff)
  have again: "post_resolve (Some ''f2'') 12 13 14 ?done = (Not_found, ?done)"
    using resolve_precondition [of ?done "Some ''f2''" 12 13 14, unfolded Let_def,
        THEN conjunct2, THEN conjunct1] fs'
    by (simp add: prod_eq_iff)
  show ?thesis
    unfolding Let_def using ok fs' st closed unknown again by (intro conjI)
qed

text \<open>
  Claim C6.  In a round that awaits review (launched from the stored state, after any
  number of draft saves and resolve requests) the saved round is still the one the
  round started from.  When that round is below \<open>2^53\<close>, where adding 1 to a number is
  exact, a submission whose new findings the sanitizer accepts answers with that round
  plus 1 and saves a state with exactly that round, no draft, and the
  findings that are not open, then the open ones, then the sanitized new ones, in this
  order; the round settles with these findings.  When the sanitizer raises, nothing is
  saved and the session is left as it is.  Cancelling saves nothing: the saved state,
  its round and its findings are what they were, and the round settles as cancelled.
\<close>

theorem submit_and_cancel:
  assumes "s = awaiting (launch files st t0 t1) requests"
    and "fresh = (case sb_new_findings input of Some xs \<Rightarrow> xs | None \<Rightarrow> [])"
    and "s_round st < 2 ^ 53"
  shows "s_round (stored s) = s_round st \<and>
         (\<forall>created.
            sanitize fresh (s_round st + 1) (file_map files) u0 uuid = Inr created \<longrightarrow>
            (\<exists>s'. post_submit input u0 u1 uuid s = (Inr (Submitted (s_round st + 1)), s') \<and>
                  s_round (stored s') = s_round (stored s) + 1 \<and>
                  s_draft (stored s') = None \<and>
                  s_findings (stored s') =
                    filter (\<lambda>item. f_status item \<noteq> Open) (s_findings (stored s)) @
                    filter (\<lambda>item. f_status item = Open) (s_findings (stored s)) @ created \<and>
                  result s' =
                    Some \<lparr> cancelled = False, dn_round = s_round st + 1,
                           dn_notes = (case sb_notes input of Some n \<Rightarrow> trim n | None \<Rightarrow> []),
                           dn_findings = s_findings (stored s') \<rparr>)) \<and>
         (\<forall>err. sanitize fresh (s_round st + 1) (file_map files) u0 uuid = Inl err \<longrightarrow>
                post_submit input u0 u1 uuid s = (Inl err, s)) \<and>
         stored (abort s) = stored s \<and> base (abort s) = base s \<and>
         s_round (stored (abort s)) = s_round st \<and>
         result (abort s) =
           Some \<lparr> cancelled = True, dn_round = s_round st + 1, dn_notes = [],
                  dn_findings = s_findings (stored s) \<rparr>"
proof -
  note facts = awaiting_launch [of files st t0 t1 requests, folded assms(1)]
  from assms(3) have next_round: "js_add1 (s_round st) = s_round st + 1"
    by (rule js_add1_exact)
  have submitted: "\<exists>s'. post_submit input u0 u1 uuid s = (Inr (Submitted (s_round st + 1)), s') \<and>
                  s_round (stored s') = s_round (stored s) + 1 \<and>
                  s_draft (stored s') = None \<and>
                  s_findings (stored s') =
                    filter (\<lambda>item. f_status item \<noteq> Open) (s_findings (stored s)) @
                    filter (\<lambda>item. f_status item = Open) (s_findings (stored s)) @ created \<and>
                  result s' =
                    Some \<lparr> cancelled = False, dn_round = s_round st + 1,
                           dn_notes = (case sb_notes input of Some n \<Rightarrow> trim n | None \<Rightarrow> []),
                           dn_findings = s_findings (stored s') \<rparr>"
    if "sanitize fresh (s_round st + 1) (file_map files) u0 uuid = Inr created" for created
    using that facts assms(2) next_round
    by (simp add: post_submit_def Let_def resolve_def)
  have raised: "post_submit input u0 u1 uuid s = (Inl err, s)"
    if "sanitize fresh (s_round st + 1) (file_map files) u0 uuid = Inl err" for err
    using that facts assms(2) next_round by (simp add: post_submit_def Let_def)
  have cancel: "stored (abort s) = stored s" "base (abort s) = base s"
    "s_round (stored (abort s)) = s_round st"
    "result (abort s) =
           Some \<lparr> cancelled = True, dn_round = s_round st + 1, dn_notes = [],
                  dn_findings = s_findings (stored s) \<rparr>"
    using facts next_round by (simp_all add: abort_def resolve_def)
  from facts(2) submitted raised cancel show ?thesis by blast
qed

theorem submit_and_cancel_witness:
  "let input = \<lparr> sb_notes = Some '' ok '',
                  sb_new_findings = Some [Item \<lparr> d_id = Undefined, d_file = Str ''a.ts'', d_side = Str ''additions'',
          d_start_line = Num (Finite 1), d_end_line = Num (Finite 1),
          d_category = Str ''perf'', d_severity = Str ''medium'',
          d_comment = Str ''slow'' \<rparr>] \<rparr>;
       s = awaiting (launch [\<lparr> path = ''a.ts'', rf_status = Modified, additions = 1, deletions = 0,
          before = ''x'', after = ''y'' @ [nl] @ ''x'' \<rparr>]
             \<lparr> s_session_id = ''ses'', s_round = 1,
          s_findings = [\<lparr> f_id = ''f1'', f_round = 1, f_file = ''a.ts'', f_side = ''additions'',
          f_start_line = 1, f_end_line = 1, f_category = ''style'', f_severity = ''low'',
          f_comment = ''name'', f_status = Closed_auto,
          f_anchor = \<lparr> a_before = [], a_selected = ''z'', a_after = [] \<rparr>,
          f_created_at = 3, f_updated_at = 4, f_closed_at = Some 4,
          f_close_reason = Some Anchor_missing \<rparr>,
                        \<lparr> f_id = ''f2'', f_round = 1, f_file = ''a.ts'', f_side = ''additions'',
          f_start_line = 1, f_end_line = 1, f_category = ''bug'', f_severity = ''high'',
          f_comment = ''leak'', f_status = Open,
          f_anchor = \<lparr> a_before = [], a_selected = ''x'', a_after = [] \<rparr>,
          f_created_at = 3, f_updated_at = 3, f_closed_at = None,
          f_close_reason = None \<rparr>],
          s_draft = None, s_updated_at = 4 \<rparr> 7 8)
             [Put_draft input 9, Post_resolve (Some ''f9'') 9 10 11];
       s' = snd (post_submit input 12 13 (\<lambda>i. ''3f9a1c0e-7b2d'') s)
   in sanitize [Item \<lparr> d_id = Undefined, d_file = Str ''a.ts'', d_side = Str ''additions'',
          d_start_line = Num (Finite 1), d_end_line = Num (Finite 1),
          d_category = Str ''perf'', d_severity = Str ''medium'',
          d_comment = Str ''slow'' \<rparr>] (1 + 1) (file_map [\<lparr> path = ''a.ts'', rf_status = Modified, additions = 1, deletions = 0,
          before = ''x'', after = ''y'' @ [nl] @ ''x'' \<rparr>]) 12 (\<lambda>i. ''3f9a1c0e-7b2d'') =
        Inr [\<lparr> f_id = ''finding_2_1_3f9a1c'', f_round = 2, f_file = ''a.ts'', f_side = ''additions'',
          f_start_line = 1, f_end_line = 1, f_category = ''perf'', f_severity = ''medium'',
          f_comment = ''slow'', f_status = Open,
          f_anchor = \<lparr> a_before = [], a_selected = ''y'', a_after = ''x'' \<rparr>,
          f_created_at = 12, f_updated_at = 12, f_closed_at = None,
          f_close_reason = None \<rparr>] \<and>
      fst (post_submit input 12 13 (\<lambda>i. ''3f9a1c0e-7b2d'') s) = Inr (Submitted 2) \<and>
      (1::nat) < 2 ^ 53 \<and>
      s_round (stored s) = 1 \<and> s_round (stored s') = 2 \<and> s_draft (stored s') = None \<and>
      s_findings (stored s') =
        [\<lparr> f_id = ''f1'', f_round = 1, f_file = ''a.ts'', f_side = ''additions'',
          f_start_line = 1, f_end_line = 1, f_category = ''style'', f_severity = ''low'',
          f_comment = ''name'', f_status = Closed_auto,
          f_anchor = \<lparr> a_before = [], a_selected = ''z'', a_after = [] \<rparr>,
          f_created_at = 3, f_updated_at = 4, f_closed_at = Some 4,
          f_close_reason = Some Anchor_missing \<rparr>,
         \<lparr> f_id = ''f2'', f_round = 1, f_file = ''a.ts'', f_side = ''additions'',
          f_start_line = 2, f_end_line = 2, f_category = ''bug'', f_severity = ''high'',
          f_comment = ''leak'', f_status = Open,
          f_anchor = \<lparr> a_before = [], a_selected = ''x'', a_after = [] \<rparr>,
          f_created_at = 3, f_updated_at = 7, f_closed_at = None,
          f_close_reason = None \<rparr>,
         \<lparr> f_id = ''finding_2_1_3f9a1c'', f_round = 2, f_file = ''a.ts'', f_side = ''additions'',
          f_start_line = 1, f_end_line = 1, f_category = ''perf'', f_severity = ''medium'',
          f_comment = ''slow'', f_status = Open,
          f_anchor = \<lparr> a_before = [], a_selected = ''y'', a_after = ''x'' \<rparr>,
          f_created_at = 12, f_updated_at = 12, f_closed_at = None,
          f_close_reason = None \<rparr>] \<and>
      s_round (stored (abort s)) = 1 \<and> stored (abort s) = stored s"
proof -
  let ?input = "\<lparr> sb_notes = Some '' ok '',
                  sb_new_findings = Some [Item \<lparr> d_id = Undefined, d_file = Str ''a.ts'', d_side = Str ''additions'',
          d_start_line = Num (Finite 1), d_end_line = Num (Finite 1),
          d_category = Str ''perf'', d_severity = Str ''medium'',
          d_comment = Str ''slow'' \<rparr>] \<rparr>"
  let ?st = "\<lparr> s_session_id = ''ses'', s_round = 1,
          s_findings = [\<lparr> f_id = ''f1'', f_round = 1, f_file = ''a.ts'', f_side = ''additions'',
          f_start_line = 1, f_end_line = 1, f_category = ''style'', f_severity = ''low'',
          f_comment = ''name'', f_status = Closed_auto,
          f_anchor = \<lparr> a_before = [], a_selected = ''z'', a_after = [] \<rparr>,
          f_created_at = 3, f_updated_at = 4, f_closed_at = Some 4,
          f_close_reason = Some Anchor_missing \<rparr>,
                        \<lparr> f_id = ''f2'', f_round = 1, f_file = ''a.ts'', f_side = ''additions'',
          f_start_line = 1, f_end_line = 1, f_category = ''bug'', f_severity = ''high'',
          f_comment = ''leak'', f_status = Open,
          f_anchor = \<lparr> a_before = [], a_selected = ''x'', a_after = [] \<rparr>,
          f_created_at = 3, f_updated_at = 3, f_closed_at = None,
          f_close_reason = None \<rparr>],
          s_draft = None, s_updated_at = 4 \<rparr>"
  let ?files = "[\<lparr> path = ''a.ts'', rf_status = Modified, additions = 1, deletions = 0,
          before = ''x'', after = ''y'' @ [nl] @ ''x'' \<rparr>]"
  let ?requests = "[Put_draft ?input 9, Post_resolve (Some ''f9'') 9 10 11]"
  let ?s = "awaiting (launch ?files ?st 7 8) ?requests"
  let ?s' = "snd (post_submit ?input 12 13 (\<lambda>i. ''3f9a1c0e-7b2d'') ?s)"
  let ?new = "\<lparr> f_id = ''finding_2_1_3f9a1c'', f_round = 2, f_file = ''a.ts'', f_side = ''additions'',
          f_start_line = 1, f_end_line = 1, f_category = ''perf'', f_severity = ''medium'',
          f_comment = ''slow'', f_status = Open,
          f_anchor = \<lparr> a_before = [], a_selected = ''y'', a_after = ''x'' \<rparr>,
          f_created_at = 12, f_updated_at = 12, f_closed_at = None,
          f_close_reason = None \<rparr>"
  have san: "sanitize [Item \<lparr> d_id = Undefined, d_file = Str ''a.ts'', d_side = Str ''additions'',
          d_start_line = Num (Finite 1), d_end_line = Num (Finite 1),
          d_category = Str ''perf'', d_severity = Str ''medium'',
          d_comment = Str ''slow'' \<rparr>] (s_round ?st + 1) (file_map ?files) 12 (\<lambda>i. ''3f9a1c0e-7b2d'') = Inr [?new]"
    by code_simp
  have fresh: "[Item \<lparr> d_id = Undefined, d_file = Str ''a.ts'', d_side = Str ''additions'',
          d_start_line = Num (Finite 1), d_end_line = Num (Finite 1),
          d_category = Str ''perf'', d_severity = Str ''medium'',
          d_comment = Str ''slow'' \<rparr>] = (case sb_new_findings ?input of Some xs \<Rightarrow> xs | None \<Rightarrow> [])"
    by simp
  have fs: "s_findings (stored ?s) =
      [\<lparr> f_id = ''f1'', f_round = 1, f_file = ''a.ts'', f_side = ''additions'',
          f_start_line = 1, f_end_line = 1, f_category = ''style'', f_severity = ''low'',
          f_comment = ''name'', f_status = Closed_auto,
          f_anchor = \<lparr> a_before = [], a_selected = ''z'', a_after = [] \<rparr>,
          f_created_at = 3, f_updated_at = 4, f_closed_at = Some 4,
          f_close_reason = Some Anchor_missing \<rparr>,
       \<lparr> f_id = ''f2'', f_round = 1, f_file = ''a.ts'', f_side = ''additions'',
          f_start_line = 2, f_end_line = 2, f_category = ''bug'', f_severity = ''high'',
          f_comment = ''leak'', f_status = Open,
          f_anchor = \<lparr> a_before = [], a_selected = ''x'', a_after = [] \<rparr>,
          f_created_at = 3, f_updated_at = 7, f_closed_at = None,
          f_close_reason = None \<rparr>]"
    by code_simp
  have small: "s_round ?st < 2 ^ 53" by simp
  note inst = submit_and_cancel [OF refl fresh small, of ?files 7 8 ?requests 12
      "(\<lambda>i. ''3f9a1c0e-7b2d'')" 13]
  from inst have r: "s_round (stored ?s) = s_round ?st" by (rule conjunct1)
  from inst [THEN conjunct2, THEN conjunct1, rule_format, OF san] obtain s'
    where sub: "post_submit ?input 12 13 (\<lambda>i. ''3f9a1c0e-7b2d'') ?s = (Inr (Submitted (s_round ?st + 1)), s')"
      and r': "s_round (stored s') = s_round (stored ?s) + 1"
      and d': "s_draft (stored s') = None"
      and f': "s_findings (stored s') =
                    filter (\<lambda>item. f_status item \<noteq> Open) (s_findings (stored ?s)) @
                    filter (\<lambda>item. f_status item = Open) (s_findings (stored ?s)) @ [?new]"
    by blast
  from sub have s': "?s' = s'" and answer: "fst (post_submit ?input 12 13 (\<lambda>i. ''3f9a1c0e-7b2d'') ?s) = Inr (Submitted 2)"
    by simp_all
  from f' have f'': "s_findings (stored s') =
        [\<lparr> f_id = ''f1'', f_round = 1, f_file = ''a.ts'', f_side = ''additions'',
          f_start_line = 1, f_end_line = 1, f_category = ''style'', f_severity = ''low'',
          f_comment = ''name'', f_status = Closed_auto,
          f_anchor = \<lparr> a_before = [], a_selected = ''z'', a_after = [] \<rparr>,
          f_created_at = 3, f_updated_at = 4, f_closed_at = Some 4,
          f_close_reason = Some Anchor_missing \<rparr>,
         \<lparr> f_id = ''f2'', f_round = 1, f_file = ''a.ts'', f_side = ''additions'',
          f_start_line = 2, f_end_line = 2, f_category = ''bug'', f_severity = ''high'',
          f_comment = ''leak'', f_status = Open,
          f_anchor = \<lparr> a_before = [], a_selected = ''x'', a_after = [] \<rparr>,
          f_created_at = 3, f_updated_at = 7, f_closed_at = None,
          f_close_reason = None \<rparr>,
         \<lparr> f_id = ''finding_2_1_3f9a1c'', f_round = 2, f_file = ''a.ts'', f_side = ''additions'',
          f_start_line = 1, f_end_line = 1, f_category = ''perf'', f_severity = ''medium'',
          f_comment = ''slow'', f_status = Open,
          f_anchor = \<lparr> a_before = [], a_selected = ''y'', a_after = ''x'' \<rparr>,
          f_created_at = 12, f_updated_at = 12, f_closed_at = None,
          f_close_reason = None \<rparr>]"
    unfolding fs by simp
  from inst have c: "stored (abort ?s) = stored ?s" "s_round (stored (abort ?s)) = s_round ?st"
    by simp_all
  from san have san': "sanitize [Item \<lparr> d_id = Undefined, d_file = Str ''a.ts'', d_side = Str ''additions'',
          d_start_line = Num (Finite 1), d_end_line = Num (Finite 1),
          d_category = Str ''perf'', d_severity = Str ''medium'',
          d_comment = Str ''slow'' \<rparr>] (1 + 1) (file_map ?files) 12 (\<lambda>i. ''3f9a1c0e-7b2d'') = Inr [?new]"
    by simp
  show ?thesis
    unfolding Let_def s' using san' answer r r' d' f'' c by simp
qed

section \<open>Finding ids\<close>

text \<open>
  Claim C3, as stated: in every state the operations reach, the ids of the findings are
  pairwise distinct.  It fails at a submission: the sanitizer takes a caller-supplied
  id as it is, so a batch of two drafts with the same id, submitted in the first round
  of a fresh session, leaves two findings with that id in the saved state.
\<close>

theorem ids_unique_counterexample:
  "distinct (map f_id (s_findings (stored (launch [\<lparr> path = ''x.ts'', rf_status = Modified, additions = 2, deletions = 0, before = [],
        after = ''a'' @ [nl] @ ''b'' \<rparr>]
       \<lparr> s_session_id = ''ses'', s_round = 0, s_findings = [], s_draft = None,
        s_updated_at = 0 \<rparr> 1 2)))) \<and>
   map f_id (s_findings (stored (snd
     (post_submit
        \<lparr> sb_notes = None,
          sb_new_findings = Some
            [Item \<lparr> d_id = Str ''dup'', d_file = Str ''x.ts'', d_side = Str ''additions'',
                d_start_line = Num (Finite 1), d_end_line = Num (Finite 1),
                d_category = Str ''bug'', d_severity = Str ''high'',
                d_comment = Str ''leak'' \<rparr>,
             Item \<lparr> d_id = Str ''dup'', d_file = Str ''x.ts'', d_side = Str ''additions'',
                d_start_line = Num (Finite 2), d_end_line = Num (Finite 2),
                d_category = Str ''style'', d_severity = Str ''low'',
                d_comment = Str ''name'' \<rparr>] \<rparr>
        3 4 show_nat
        (launch [\<lparr> path = ''x.ts'', rf_status = Modified, additions = 2, deletions = 0, before = [],
        after = ''a'' @ [nl] @ ''b'' \<rparr>]
           \<lparr> s_session_id = ''ses'', s_round = 0, s_findings = [], s_draft = None,
        s_updated_at = 0 \<rparr> 1 2))))) =
     [''dup'', ''dup''] \<and>
   \<not> distinct (map f_id (s_findings (stored (snd
     (post_submit
        \<lparr> sb_notes = None,
          sb_new_findings = Some
            [Item \<lparr> d_id = Str ''dup'', d_file = Str ''x.ts'', d_side = Str ''additions'',
                d_start_line = Num (Finite 1), d_end_line = Num (Finite 1),
                d_category = Str ''bug'', d_severity = Str ''high'',
                d_comment = Str ''leak'' \<rparr>,
             Item \<lparr> d_id = Str ''dup'', d_file = Str ''x.ts'', d_side = Str ''additions'',
                d_start_line = Num (Finite 2), d_end_line = Num (Finite 2),
                d_category = Str ''style'', d_severity = Str ''low'',
                d_comment = Str ''name'' \<rparr>] \<rparr>
        3 4 show_nat
        (launch [\<lparr> path = ''x.ts'', rf_status = Modified, additions = 2, deletions = 0, before = [],
        after = ''a'' @ [nl] @ ''b'' \<rparr>]
           \<lparr> s_session_id = ''ses'', s_round = 0, s_findings = [], s_draft = None,
        s_updated_at = 0 \<rparr> 1 2))))))"
  by code_simp

text \<open>
  Claim C3, amended.  \<open>reconcile\<close> and the resolve request keep the list of ids, so
  they keep the ids pairwise distinct.  A submission saves the stored findings and,
  after them, the sanitized new ones: the saved ids are pairwise distinct exactly when
  the stored ids are, the new ids are, and no new id is a stored id.  In a batch whose
  items supply no id, the ids the sanitizer synthesises are pairwise distinct.
\<close>

theorem ids_distinct_preserved:
  "(distinct (map f_id findings) \<longrightarrow> distinct (map f_id (reconcile files now findings))) \<and>
   (distinct (map f_id (s_findings (base s))) \<longrightarrow>
      distinct (map f_id (s_findings (base (snd (post_resolve finding_id t0 t1 t2 s)))))) \<and>
   (\<forall>created.
      sanitize (case sb_new_findings input of Some xs \<Rightarrow> xs | None \<Rightarrow> [])
        (js_add1 (s_round (base s))) (files_map s) u0 uuid = Inr created \<longrightarrow>
      (distinct (map f_id (s_findings (stored (snd (post_submit input u0 u1 uuid s))))) \<longleftrightarrow>
         distinct (map f_id (s_findings (base s))) \<and> distinct (map f_id created) \<and>
         set (map f_id (s_findings (base s))) \<inter> set (map f_id created) = {})) \<and>
   (\<forall>created.
      (\<forall>x \<in> set items. \<exists>v. x = Item v \<and> (d_id v = Undefined \<or> d_id v = Null)) \<and>
      sanitize items round' fmap now' uuid' = Inr created \<longrightarrow>
      distinct (map f_id created))"
proof (intro conjI allI impI)
  assume "distinct (map f_id findings)"
  then show "distinct (map f_id (reconcile files now findings))"
    by (simp only: reconcile_ids)
next
  assume "distinct (map f_id (s_findings (base s)))"
  then show "distinct (map f_id (s_findings (base (snd (post_resolve finding_id t0 t1 t2 s)))))"
    by (simp only: post_resolve_ids)
next
  fix created
  assume "sanitize (case sb_new_findings input of Some xs \<Rightarrow> xs | None \<Rightarrow> [])
        (js_add1 (s_round (base s))) (files_map s) u0 uuid = Inr created"
  from post_submit_findings [OF this refl, of u1]
  show "distinct (map f_id (s_findings (stored (snd (post_submit input u0 u1 uuid s))))) \<longleftrightarrow>
         distinct (map f_id (s_findings (base s))) \<and> distinct (map f_id created) \<and>
         set (map f_id (s_findings (base s))) \<inter> set (map f_id created) = {}"
    using distinct_partition_append
      [of f_id "\<lambda>item. f_status item = Open" "s_findings (base s)" created]
    by simp
next
  fix created
  assume "(\<forall>x \<in> set items. \<exists>v. x = Item v \<and> (d_id v = Undefined \<or> d_id v = Null)) \<and>
      sanitize items round' fmap now' uuid' = Inr created"
  then have "\<forall>x \<in> set items. \<exists>v. x = Item v \<and> (d_id v = Undefined \<or> d_id v = Null)"
    and "sanitize_from round' fmap now' uuid' 0 items = Inr created"
    by (simp_all add: sanitize_def)
  from sanitize_from_synth [OF this] show "distinct (map f_id created)" by simp
qed

theorem ids_distinct_preserved_witness:
  "let s = launch [\<lparr> path = ''a.ts'', rf_status = Modified, additions = 1, deletions = 0,
          before = ''x'', after = ''y'' @ [nl] @ ''x'' \<rparr>]
             \<lparr> s_session_id = ''ses'', s_round = 1,
          s_findings = [\<lparr> f_id = ''f1'', f_round = 1, f_file = ''a.ts'', f_side = ''additions'',
          f_start_line = 1, f_end_line = 1, f_category = ''style'', f_severity = ''low'',
          f_comment = ''name'', f_status = Closed_auto,
          f_anchor = \<lparr> a_before = [], a_selected = ''z'', a_after = [] \<rparr>,
          f_created_at = 3, f_updated_at = 4, f_closed_at = Some 4,
          f_close_reason = Some Anchor_missing \<rparr>,
                        \<lparr> f_id = ''f2'', f_round = 1, f_file = ''a.ts'', f_side = ''additions'',
          f_start_line = 1, f_end_line = 1, f_category = ''bug'', f_severity = ''high'',
          f_comment = ''leak'', f_status = Open,
          f_anchor = \<lparr> a_before = [], a_selected = ''x'', a_after = [] \<rparr>,
          f_created_at = 3, f_updated_at = 3, f_closed_at = None,
          f_close_reason = None \<rparr>],
          s_draft = None, s_updated_at = 4 \<rparr> 7 8;
       input = \<lparr> sb_notes = None,
                  sb_new_findings = Some [Item \<lparr> d_id = Undefined, d_file = Str ''a.ts'', d_side = Str ''additions'',
          d_start_line = Num (Finite 1), d_end_line = Num (Finite 1),
          d_category = Str ''perf'', d_severity = Str ''medium'',
          d_comment = Str ''slow'' \<rparr>] \<rparr>;
       new = \<lparr> f_id = ''finding_2_1_3f9a1c'', f_round = 2, f_file = ''a.ts'', f_side = ''additions'',
          f_start_line = 1, f_end_line = 1, f_category = ''perf'', f_severity = ''medium'',
          f_comment = ''slow'', f_status = Open,
          f_anchor = \<lparr> a_before = [], a_selected = ''y'', a_after = ''x'' \<rparr>,
          f_created_at = 12, f_updated_at = 12, f_closed_at = None,
          f_close_reason = None \<rparr>
   in distinct (map f_id [\<lparr> f_id = ''f1'', f_round = 1, f_file = ''a.ts'', f_side = ''additions'',
          f_start_line = 1, f_end_line = 1, f_category = ''style'', f_severity = ''low'',
          f_comment = ''name'', f_status = Closed_auto,
          f_anchor = \<lparr> a_before = [], a_selected = ''z'', a_after = [] \<rparr>,
          f_created_at = 3, f_updated_at = 4, f_closed_at = Some 4,
          f_close_reason = Some Anchor_missing \<rparr>,
                          \<lparr> f_id = ''f2'', f_round = 1, f_file = ''a.ts'', f_side = ''additions'',
          f_start_line = 1, f_end_line = 1, f_category = ''bug'', f_severity = ''high'',
          f_comment = ''leak'', f_status = Open,
          f_anchor = \<lparr> a_before = [], a_selected = ''x'', a_after = [] \<rparr>,
          f_created_at = 3, f_updated_at = 3, f_closed_at = None,
          f_close_reason = None \<rparr>]) \<and>
      distinct (map f_id (reconcile [\<lparr> path = ''a.ts'', rf_status = Modified, additions = 1, deletions = 0,
          before = ''x'', after = ''y'' @ [nl] @ ''x'' \<rparr>] 7
                 [\<lparr> f_id = ''f1'', f_round = 1, f_file = ''a.ts'', f_side = ''additions'',
          f_start_line = 1, f_end_line = 1, f_category = ''style'', f_severity = ''low'',
          f_comment = ''name'', f_status = Closed_auto,
          f_anchor = \<lparr> a_before = [], a_selected = ''z'', a_after = [] \<rparr>,
          f_created_at = 3, f_updated_at = 4, f_closed_at = Some 4,
          f_close_reason = Some Anchor_missing \<rparr>,
                  \<lparr> f_id = ''f2'', f_round = 1, f_file = ''a.ts'', f_side = ''additions'',
          f_start_line = 1, f_end_line = 1, f_category = ''bug'', f_severity = ''high'',
          f_comment = ''leak'', f_status = Open,
          f_anchor = \<lparr> a_before = [], a_selected = ''x'', a_after = [] \<rparr>,
          f_created_at = 3, f_updated_at = 3, f_closed_at = None,
          f_close_reason = None \<rparr>])) \<and>
      sanitize [Item \<lparr> d_id = Undefined, d_file = Str ''a.ts'', d_side = Str ''additions'',
          d_start_line = Num (Finite 1), d_end_line = Num (Finite 1),
          d_category = Str ''perf'', d_severity = Str ''medium'',
          d_comment = Str ''slow'' \<rparr>] (js_add1 (s_round (base s))) (files_map s) 12 (\<lambda>i. ''3f9a1c0e-7b2d'') = Inr [new] \<and>
      distinct (map f_id (s_findings (base s))) \<and> distinct (map f_id [new]) \<and>
      set (map f_id (s_findings (base s))) \<inter> set (map f_id [new]) = {} \<and>
      distinct (map f_id (s_findings (stored (snd (post_submit input 12 13 (\<lambda>i. ''3f9a1c0e-7b2d'') s)))))"
proof -
  let ?s = "launch [\<lparr> path = ''a.ts'', rf_status = Modified, additions = 1, deletions = 0,
          before = ''x'', after = ''y'' @ [nl] @ ''x'' \<rparr>]
             \<lparr> s_session_id = ''ses'', s_round = 1,
          s_findings = [\<lparr> f_id = ''f1'', f_round = 1, f_file = ''a.ts'', f_side = ''additions'',
          f_start_line = 1, f_end_line = 1, f_category = ''style'', f_severity = ''low'',
          f_comment = ''name'', f_status = Closed_auto,
          f_anchor = \<lparr> a_before = [], a_selected = ''z'', a_after = [] \<rparr>,
          f_created_at = 3, f_updated_at = 4, f_closed_at = Some 4,
          f_close_reason = Some Anchor_missing \<rparr>,
                        \<lparr> f_id = ''f2'', f_round = 1, f_file = ''a.ts'', f_side = ''additions'',
          f_start_line = 1, f_end_line = 1, f_category = ''bug'', f_severity = ''high'',
          f_comment = ''leak'', f_status = Open,
          f_anchor = \<lparr> a_before = [], a_selected = ''x'', a_after = [] \<rparr>,
          f_created_at = 3, f_updated_at = 3, f_closed_at = None,
          f_close_reason = None \<rparr>],
          s_draft = None, s_updated_at = 4 \<rparr> 7 8"
  let ?input = "\<lparr> sb_notes = None,
                  sb_new_findings = Some [Item \<lparr> d_id = Undefined, d_file = Str ''a.ts'', d_side = Str ''additions'',
          d_start_line = Num (Finite 1), d_end_line = Num (Finite 1),
          d_category = Str ''perf'', d_severity = Str ''medium'',
          d_comment = Str ''slow'' \<rparr>] \<rparr>"
  let ?new = "\<lparr> f_id = ''finding_2_1_3f9a1c'', f_round = 2, f_file = ''a.ts'', f_side = ''additions'',
          f_start_line = 1, f_end_line = 1, f_category = ''perf'', f_severity = ''medium'',
          f_comment = ''slow'', f_status = Open,
          f_anchor = \<lparr> a_before = [], a_selected = ''y'', a_after = ''x'' \<rparr>,
          f_created_at = 12, f_updated_at = 12, f_closed_at = None,
          f_close_reason = None \<rparr>"
  let ?fs = "[\<lparr> f_id = ''f1'', f_round = 1, f_file = ''a.ts'', f_side = ''additions'',
          f_start_line = 1, f_end_line = 1, f_category = ''style'', f_severity = ''low'',
          f_comment = ''name'', f_status = Closed_auto,
          f_anchor = \<lparr> a_before = [], a_selected = ''z'', a_after = [] \<rparr>,
          f_created_at = 3, f_updated_at = 4, f_closed_at = Some 4,
          f_close_reason = Some Anchor_missing \<rparr>,
              \<lparr> f_id = ''f2'', f_round = 1, f_file = ''a.ts'', f_side = ''additions'',
          f_start_line = 1, f_end_line = 1, f_category = ''bug'', f_severity = ''high'',
          f_comment = ''leak'', f_status = Open,
          f_anchor = \<lparr> a_before = [], a_selected = ''x'', a_after = [] \<rparr>,
          f_created_at = 3, f_updated_at = 3, f_closed_at = None,
          f_close_reason = None \<rparr>]"
  note inst = ids_distinct_preserved [where findings = "?fs" and files = "[\<lparr> path = ''a.ts'', rf_status = Modified, additions = 1, deletions = 0,
          before = ''x'', after = ''y'' @ [nl] @ ''x'' \<rparr>]" and now = 7
      and s = "?s" and input = "?input" and ?u0.0 = 12 and ?u1.0 = 13 and uuid = "(\<lambda>i. ''3f9a1c0e-7b2d'')"
      and items = "[Item \<lparr> d_id = Undefined, d_file = Str ''a.ts'', d_side = Str ''additions'',
          d_start_line = Num (Finite 1), d_end_line = Num (Finite 1),
          d_category = Str ''perf'', d_severity = Str ''medium'',
          d_comment = Str ''slow'' \<rparr>]" and round' = "js_add1 (s_round (base ?s))"
      and fmap = "files_map ?s" and now' = 12 and uuid' = "(\<lambda>i. ''3f9a1c0e-7b2d'')"]
  have d0: "distinct (map f_id ?fs)" by simp
  from inst [THEN conjunct1, rule_format, OF d0]
  have d1: "distinct (map f_id (reconcile [\<lparr> path = ''a.ts'', rf_status = Modified, additions = 1, deletions = 0,
          before = ''x'', after = ''y'' @ [nl] @ ''x'' \<rparr>] 7 ?fs))" .
  have nullish: "\<forall>x \<in> set [Item \<lparr> d_id = Undefined, d_file = Str ''a.ts'', d_side = Str ''additions'',
          d_start_line = Num (Finite 1), d_end_line = Num (Finite 1),
          d_category = Str ''perf'', d_severity = Str ''medium'',
          d_comment = Str ''slow'' \<rparr>].
          \<exists>v. x = Item v \<and> (d_id v = Undefined \<or> d_id v = Null)"
    by simp
  have san: "sanitize [Item \<lparr> d_id = Undefined, d_file = Str ''a.ts'', d_side = Str ''additions'',
          d_start_line = Num (Finite 1), d_end_line = Num (Finite 1),
          d_category = Str ''perf'', d_severity = Str ''medium'',
          d_comment = Str ''slow'' \<rparr>] (js_add1 (s_round (base ?s))) (files_map ?s) 12 (\<lambda>i. ''3f9a1c0e-7b2d'') = Inr [?new]"
    by code_simp
  have fresh: "(case sb_new_findings ?input of Some xs \<Rightarrow> xs | None \<Rightarrow> []) = [Item \<lparr> d_id = Undefined, d_file = Str ''a.ts'', d_side = Str ''additions'',
          d_start_line = Num (Finite 1), d_end_line = Num (Finite 1),
          d_category = Str ''perf'', d_severity = Str ''medium'',
          d_comment = Str ''slow'' \<rparr>]"
    by simp
  from inst [THEN conjunct2, THEN conjunct2, THEN conjunct2, rule_format, of "[?new]"]
    nullish san
  have dnew: "distinct (map f_id [?new])" by blast
  have dbase: "distinct (map f_id (s_findings (base ?s)))" by code_simp
  have disj: "set (map f_id (s_findings (base ?s))) \<inter> set (map f_id [?new]) = {}"
    by code_simp
  from inst [THEN conjunct2, THEN conjunct2, THEN conjunct1, rule_format, of "[?new]",
      unfolded fresh, OF san] dbase dnew disj
  have dsub: "distinct (map f_id (s_findings (stored (snd (post_submit ?input 12 13 (\<lambda>i. ''3f9a1c0e-7b2d'') ?s)))))"
    by blast
  show ?thesis
    unfolding Let_def using d0 d1 san dbase dnew disj dsub by (intro conjI)
qed

end
